theory Spec2Isabelle
  imports Complex_Main
begin

section \<open>Binary64 floating point, as numpy and pandas compute with it\<close>

text \<open>
  Every price and volume cell the script touches is a \<open>numpy.float64\<close>. A value is a
  finite number (kept as the exact rational it stands for; \<open>Num 0\<close> is \<open>+0.0\<close>), the
  negative zero, a signed infinity (\<open>Infinity True\<close> is \<open>-inf\<close>), or NaN.
\<close>

datatype f64 = Num rat | NegZero | Infinity bool | NaN

fun is_finite :: "f64 \<Rightarrow> bool" where
  "is_finite (Num q) = True"
| "is_finite NegZero = True"
| "is_finite (Infinity s) = False"
| "is_finite NaN = False"

fun is_zero :: "f64 \<Rightarrow> bool" where
  "is_zero (Num q) = (q = 0)"
| "is_zero NegZero = True"
| "is_zero (Infinity s) = False"
| "is_zero NaN = False"

fun sign_bit :: "f64 \<Rightarrow> bool" where
  "sign_bit (Num q) = (q < 0)"
| "sign_bit NegZero = True"
| "sign_bit (Infinity s) = s"
| "sign_bit NaN = False"

text \<open>The exact value and the magnitude of a finite float (0 on the others).\<close>

fun to_rat :: "f64 \<Rightarrow> rat" where
  "to_rat (Num q) = q"
| "to_rat NegZero = 0"
| "to_rat (Infinity s) = 0"
| "to_rat NaN = 0"

definition magnitude :: "f64 \<Rightarrow> rat" where
  "magnitude x = \<bar>to_rat x\<bar>"

text \<open>The finite float with sign bit \<open>s\<close> and magnitude \<open>m\<close>.\<close>

definition signed :: "bool \<Rightarrow> rat \<Rightarrow> f64" where
  "signed s m = (if m = 0 then (if s then NegZero else Num 0)
                 else Num (if s then - m else m))"

text \<open>Round to the nearest integer, ties to the even neighbour (the IEEE default mode).\<close>

definition rne :: "rat \<Rightarrow> int" where
  "rne q = (let f = \<lfloor>q\<rfloor>; r = q - of_int f
            in if r < 1 / 2 then f
               else if 1 / 2 < r then f + 1
               else if even f then f else f + 1)"

fun bit_length :: "nat \<Rightarrow> nat" where
  "bit_length n = (if n = 0 then 0 else Suc (bit_length (n div 2)))"

declare bit_length.simps [simp del]

definition pow2 :: "int \<Rightarrow> rat" where
  "pow2 e = (if 0 \<le> e then 2 ^ nat e else 1 / 2 ^ nat (- e))"

text \<open>
  \<open>ilog2 m\<close> is the binary exponent of a positive magnitude: the \<open>e\<close> with
  \<open>2^e \<le> m < 2^(e+1)\<close>. The spacing of binary64 numbers around \<open>m\<close> is
  \<open>2^(e - 52)\<close> (53 significant bits), and never finer than \<open>2^(-1074)\<close> (subnormals).
\<close>

definition ilog2 :: "rat \<Rightarrow> int" where
  "ilog2 m = (if 1 \<le> m then int (bit_length (nat \<lfloor>m\<rfloor>)) - 1
              else - int (bit_length (nat (\<lceil>1 / m\<rceil> - 1))))"

definition quantum :: "rat \<Rightarrow> rat" where
  "quantum m = pow2 (max (ilog2 m - 52) (- 1074))"

definition round_mag :: "rat \<Rightarrow> rat" where
  "round_mag m = (let q = quantum m in of_int (rne (m / q)) * q)"

text \<open>
  The binary64 result of an operation whose exact result has sign \<open>s\<close> and magnitude
  \<open>m\<close>: rounded to nearest, ties to even. A rounded magnitude of \<open>2^1024\<close> or more (its
  integer part needs more than 1024 bits) is past the largest finite number: an infinity.
\<close>

definition to_f64 :: "bool \<Rightarrow> rat \<Rightarrow> f64" where
  "to_f64 s m = (let r = round_mag m
                 in if 1024 < bit_length (nat \<lfloor>r\<rfloor>) then Infinity s else signed s r)"

definition f64_add :: "f64 \<Rightarrow> f64 \<Rightarrow> f64" where
  "f64_add x y =
     (if x = NaN \<or> y = NaN then NaN
      else if is_finite x \<and> is_finite y then
        (let v = to_rat x + to_rat y
         in if v = 0 then signed (sign_bit x \<and> sign_bit y) 0 else to_f64 (v < 0) \<bar>v\<bar>)
      else if is_finite y then x
      else if is_finite x then y
      else if sign_bit x = sign_bit y then x else NaN)"

fun f64_neg :: "f64 \<Rightarrow> f64" where
  "f64_neg (Num q) = signed (\<not> q < 0) \<bar>q\<bar>"
| "f64_neg NegZero = Num 0"
| "f64_neg (Infinity s) = Infinity (\<not> s)"
| "f64_neg NaN = NaN"

definition f64_sub :: "f64 \<Rightarrow> f64 \<Rightarrow> f64" where
  "f64_sub x y = f64_add x (f64_neg y)"

definition f64_mul :: "f64 \<Rightarrow> f64 \<Rightarrow> f64" where
  "f64_mul x y =
     (if x = NaN \<or> y = NaN then NaN
      else if is_finite x \<and> is_finite y then
        to_f64 (sign_bit x \<noteq> sign_bit y) (magnitude x * magnitude y)
      else if is_zero x \<or> is_zero y then NaN
      else Infinity (sign_bit x \<noteq> sign_bit y))"

text \<open>
  numpy's true division, with its floating-point error state ignored as pandas sets it:
  a zero divisor gives an infinity (or NaN for \<open>0/0\<close>), never an exception.
\<close>

definition f64_div :: "f64 \<Rightarrow> f64 \<Rightarrow> f64" where
  "f64_div x y =
     (if x = NaN \<or> y = NaN then NaN
      else if is_finite x \<and> is_finite y then
        (if is_zero y then (if is_zero x then NaN else Infinity (sign_bit x \<noteq> sign_bit y))
         else to_f64 (sign_bit x \<noteq> sign_bit y) (magnitude x / magnitude y))
      else if is_finite x then signed (sign_bit x \<noteq> sign_bit y) 0
      else if is_finite y then Infinity (sign_bit x \<noteq> sign_bit y)
      else NaN)"

text \<open>\<open>numpy.rint\<close>: the nearest integral value, ties to even, sign kept.\<close>

definition rint :: "f64 \<Rightarrow> f64" where
  "rint x = (if is_finite x then signed (sign_bit x) (of_int (rne (magnitude x))) else x)"

text \<open>
  \<open>round(x, ndigits)\<close> on a \<open>numpy.float64\<close> goes to numpy's rounding: for
  \<open>ndigits > 0\<close> multiply by \<open>10 ** ndigits\<close>, \<open>rint\<close>, divide again.
\<close>

definition round_ndigits :: "f64 \<Rightarrow> nat \<Rightarrow> f64" where
  "round_ndigits x ndigits =
     (if ndigits = 0 then rint x
      else let factor = Num (10 ^ ndigits)
           in f64_div (rint (f64_mul x factor)) factor)"

section \<open>Python and pandas primitives used by the script\<close>

type_synonym symbol = string
type_synonym date = int

datatype error =
    KeyError symbol
  | IndexError
  | ValueError
  | OverflowError
  | DownloadError

text \<open>\<open>int(x)\<close> on a float: truncation toward zero; NaN and the infinities raise.\<close>

fun py_int :: "f64 \<Rightarrow> error + int" where
  "py_int (Num q) = Inr (if q < 0 then - \<lfloor>- q\<rfloor> else \<lfloor>q\<rfloor>)"
| "py_int NegZero = Inr 0"
| "py_int (Infinity s) = Inl OverflowError"
| "py_int NaN = Inl ValueError"

text \<open>
  One row of a per-symbol frame: the index entry and the five columns yfinance delivers.
  A row taken with \<open>.iloc\<close> is a single float64 Series, so all five cells are floats there.
\<close>

record bar =
  Date :: date
  Open :: f64
  High :: f64
  Low :: f64
  Close :: f64
  Volume :: f64

type_synonym frame = "bar list"
type_synonym dataset = "symbol \<rightharpoonup> frame"

text \<open>\<open>data[sym]\<close>: a missing column group raises KeyError.\<close>

definition getitem :: "dataset \<Rightarrow> symbol \<Rightarrow> error + frame" where
  "getitem data symb = (case data symb of None \<Rightarrow> Inl (KeyError symb) | Some df \<Rightarrow> Inr df)"

text \<open>\<open>df.iloc[-1]\<close>: the last row; on a frame without rows the indexer is out of bounds.\<close>

definition iloc_last :: "frame \<Rightarrow> error + bar" where
  "iloc_last df = (if df = [] then Inl IndexError else Inr (last df))"

text \<open>
  \<open>Series.pct_change()\<close> is \<open>filled / filled.shift(1) - 1\<close>. Whether missing values are
  forward-filled first is the default of the installed pandas (\<open>pad\<close> before 3.0, none after),
  so the fill method stays a parameter.
\<close>

datatype fill_method = Pad | NoFill

fun ffill_from :: "f64 \<Rightarrow> f64 list \<Rightarrow> f64 list" where
  "ffill_from prev [] = []"
| "ffill_from prev (x # xs) =
     (if x = NaN then prev # ffill_from prev xs else x # ffill_from x xs)"

definition fill :: "fill_method \<Rightarrow> f64 list \<Rightarrow> f64 list" where
  "fill fm xs = (case fm of Pad \<Rightarrow> ffill_from NaN xs | NoFill \<Rightarrow> xs)"

definition shift :: "f64 list \<Rightarrow> f64 list" where
  "shift xs = (if xs = [] then [] else NaN # butlast xs)"

definition pct_change :: "fill_method \<Rightarrow> f64 list \<Rightarrow> f64 list" where
  "pct_change fm xs =
     (let filled = fill fm xs
      in map2 (\<lambda>a b. f64_sub (f64_div a b) (Num 1)) filled (shift filled))"

section \<open>The dashboard script\<close>

text \<open>
  The provider \<open>yf.download(symbols, start=..., end=..., group_by='ticker')\<close> is external:
  it either raises or returns the per-symbol frames. What the script writes to the page is
  kept as the list of its data-bearing elements, in the order written (static headings and
  captions are left out).
\<close>

type_synonym provider = "symbol list \<Rightarrow> date \<Rightarrow> date \<Rightarrow> error + dataset"

text \<open>The tickers the sidebar offers; a selection is made of these, in the order selected.\<close>

definition options :: "symbol list" where
  "options = [''AAPL'', ''MSFT'', ''GOOGL'', ''AMZN'', ''TSLA'', ''META'', ''NVDA'', ''NFLX'',
              ''IBM'', ''INTC'']"

record trace =
  trace_name :: symbol
  trace_x :: "date list"
  trace_y :: "f64 list"

record candle =
  candle_name :: symbol
  candle_x :: "date list"
  candle_open :: "f64 list"
  candle_high :: "f64 list"
  candle_low :: "f64 list"
  candle_close :: "f64 list"

text \<open>The dictionary of column lists the snapshot loop appends to, and the table made of it.\<close>

record snapshot =
  snap_Symbol :: "symbol list"
  snap_Latest_Price :: "f64 list"
  snap_Opening_Price :: "f64 list"
  snap_High :: "f64 list"
  snap_Low :: "f64 list"
  snap_Volume :: "int list"

datatype element =
    Success
  | Warning
  | Raw_data "(bar \<times> symbol) list"
  | Line_chart string "trace list"
  | Stacked_area_chart string "trace list"
  | Candlestick_chart "candle list"
  | Snapshot_table snapshot
  | Download_csv "nat list"
  | Download_pdf snapshot

record session =
  st_data :: dataset
  page :: "element list"

definition st_write :: "element \<Rightarrow> session \<Rightarrow> session" where
  "st_write e st = st\<lparr>page := page st @ [e]\<rparr>"

text \<open>A \<open>for sym in symbols\<close> loop whose body reads \<open>data[sym]\<close> and may raise there.\<close>

fun for_symbols :: "dataset \<Rightarrow> (symbol \<Rightarrow> frame \<Rightarrow> 'a) \<Rightarrow> symbol list \<Rightarrow> error + 'a list" where
  "for_symbols data body [] = Inr []"
| "for_symbols data body (symb # rest) =
     (case getitem data symb of
        Inl e \<Rightarrow> Inl e
      | Inr df \<Rightarrow>
          (case for_symbols data body rest of
             Inl e \<Rightarrow> Inl e
           | Inr out \<Rightarrow> Inr (body symb df # out)))"

text \<open>\<open>pd.concat([data[sym].assign(Symbol=sym) for sym in symbols])\<close>, shown with \<open>head(20)\<close>.\<close>

definition preview_data :: "dataset \<Rightarrow> symbol list \<Rightarrow> error + (bar \<times> symbol) list" where
  "preview_data data symbols =
     (case for_symbols data (\<lambda>symb df. map (\<lambda>b. (b, symb)) df) symbols of
        Inl e \<Rightarrow> Inl e
      | Inr frames \<Rightarrow> Inr (concat frames))"

definition show_raw_data :: "symbol list \<Rightarrow> session \<Rightarrow> error + session" where
  "show_raw_data symbols st =
     (case preview_data (st_data st) symbols of
        Inl e \<Rightarrow> Inl e
      | Inr preview \<Rightarrow> Inr (st_write (Raw_data (take 20 preview)) st))"

definition scatter :: "(bar \<Rightarrow> f64) \<Rightarrow> symbol \<Rightarrow> frame \<Rightarrow> trace" where
  "scatter column symb df =
     \<lparr>trace_name = symb, trace_x = map Date df, trace_y = map column df\<rparr>"

definition plot_line :: "string \<Rightarrow> (bar \<Rightarrow> f64) \<Rightarrow> symbol list \<Rightarrow> session \<Rightarrow> error + session" where
  "plot_line title column symbols st =
     (case for_symbols (st_data st) (scatter column) symbols of
        Inl e \<Rightarrow> Inl e
      | Inr fig \<Rightarrow> Inr (st_write (Line_chart title fig) st))"

definition plot_volume :: "symbol list \<Rightarrow> session \<Rightarrow> error + session" where
  "plot_volume symbols st =
     (case for_symbols (st_data st) (scatter Volume) symbols of
        Inl e \<Rightarrow> Inl e
      | Inr fig \<Rightarrow> Inr (st_write (Stacked_area_chart ''Volume Traded'' fig) st))"

text \<open>\<open>pct = data[sym]["Close"].pct_change() * 100\<close>, plotted against \<open>data[sym].index\<close>.\<close>

definition pct :: "fill_method \<Rightarrow> frame \<Rightarrow> f64 list" where
  "pct fm df = map (\<lambda>r. f64_mul r (Num 100)) (pct_change fm (map Close df))"

definition pct_scatter :: "fill_method \<Rightarrow> symbol \<Rightarrow> frame \<Rightarrow> trace" where
  "pct_scatter fm symb df = \<lparr>trace_name = symb, trace_x = map Date df, trace_y = pct fm df\<rparr>"

definition plot_pct :: "fill_method \<Rightarrow> symbol list \<Rightarrow> session \<Rightarrow> error + session" where
  "plot_pct fm symbols st =
     (case for_symbols (st_data st) (pct_scatter fm) symbols of
        Inl e \<Rightarrow> Inl e
      | Inr fig \<Rightarrow> Inr (st_write (Line_chart ''Daily % Change'' fig) st))"

definition candlestick :: "symbol \<Rightarrow> frame \<Rightarrow> candle" where
  "candlestick symb df =
     \<lparr>candle_name = symb, candle_x = map Date df, candle_open = map Open df,
      candle_high = map High df, candle_low = map Low df, candle_close = map Close df\<rparr>"

definition plot_candles :: "symbol list \<Rightarrow> session \<Rightarrow> error + session" where
  "plot_candles symbols st =
     (case for_symbols (st_data st) candlestick symbols of
        Inl e \<Rightarrow> Inl e
      | Inr fig \<Rightarrow> Inr (st_write (Candlestick_chart fig) st))"

text \<open>
  The snapshot loop: for each selected symbol, in order, the last row of its frame is read
  and one entry is appended to each of the six column lists.
\<close>

definition empty_snapshot :: snapshot where
  "empty_snapshot =
     \<lparr>snap_Symbol = [], snap_Latest_Price = [], snap_Opening_Price = [],
      snap_High = [], snap_Low = [], snap_Volume = []\<rparr>"

fun snapshot_loop :: "dataset \<Rightarrow> symbol list \<Rightarrow> snapshot \<Rightarrow> error + snapshot" where
  "snapshot_loop data [] snapshot = Inr snapshot"
| "snapshot_loop data (symb # rest) snapshot =
     (case getitem data symb of
        Inl e \<Rightarrow> Inl e
      | Inr df \<Rightarrow>
          (case iloc_last df of
             Inl e \<Rightarrow> Inl e
           | Inr row \<Rightarrow>
               (case py_int (Volume row) of
                  Inl e \<Rightarrow> Inl e
                | Inr v \<Rightarrow>
                    snapshot_loop data rest
                      \<lparr>snap_Symbol = snap_Symbol snapshot @ [symb],
                       snap_Latest_Price = snap_Latest_Price snapshot @ [round_ndigits (Close row) 2],
                       snap_Opening_Price = snap_Opening_Price snapshot @ [round_ndigits (Open row) 2],
                       snap_High = snap_High snapshot @ [round_ndigits (High row) 2],
                       snap_Low = snap_Low snapshot @ [round_ndigits (Low row) 2],
                       snap_Volume = snap_Volume snapshot @ [v]\<rparr>)))"

text \<open>\<open>pd.DataFrame(snapshot)\<close> refuses column lists of different lengths.\<close>

definition DataFrame :: "snapshot \<Rightarrow> error + snapshot" where
  "DataFrame d =
     (let n = length (snap_Symbol d)
      in if length (snap_Latest_Price d) = n \<and> length (snap_Opening_Price d) = n
            \<and> length (snap_High d) = n \<and> length (snap_Low d) = n
            \<and> length (snap_Volume d) = n
         then Inr d else Inl ValueError)"

definition nrows :: "snapshot \<Rightarrow> nat" where
  "nrows df = length (snap_Symbol df)"

subsection \<open>CSV export\<close>

text \<open>
  \<open>df_snapshot.to_csv(index=False)\<close>: the column names, then one line per row, fields
  separated by commas, minimal quoting, lines ended by a newline. How a float cell is
  printed (the shortest decimal that reads back as the same float) is pandas' business and
  stays a parameter \<open>float_repr\<close>; a NaN cell is printed as the empty field. A field is
  quoted when it holds a \<open>special\<close> character: the comma, the quote, the newline, and (in
  the current writer) the carriage return; quotes inside it are doubled.
\<close>

definition columns :: "string list" where
  "columns = [''Symbol'', ''Latest Price'', ''Opening Price'', ''High'', ''Low'', ''Volume'']"

fun str_nat :: "nat \<Rightarrow> string" where
  "str_nat n = (if n < 10 then [char_of (48 + n)]
                else str_nat (n div 10) @ [char_of (48 + n mod 10)])"

declare str_nat.simps [simp del]

definition str_int :: "int \<Rightarrow> string" where
  "str_int i = (if i < 0 then CHR ''-'' # str_nat (nat (- i)) else str_nat (nat i))"

definition csv_float :: "(f64 \<Rightarrow> string) \<Rightarrow> f64 \<Rightarrow> string" where
  "csv_float float_repr v = (if v = NaN then [] else float_repr v)"

definition special :: "char \<Rightarrow> bool" where
  "special c \<longleftrightarrow> c = CHR '','' \<or> c = CHR 0x22 \<or> c = CHR 0x0A \<or> c = CHR 0x0D"

definition csv_field :: "string \<Rightarrow> string" where
  "csv_field s =
     (if list_ex special s
      then [CHR 0x22] @ concat (map (\<lambda>c. if c = CHR 0x22 then [c, c] else [c]) s) @ [CHR 0x22]
      else s)"

fun join :: "string \<Rightarrow> string list \<Rightarrow> string" where
  "join sep [] = []"
| "join sep [f] = f"
| "join sep (f # g # fs) = f @ sep @ join sep (g # fs)"

definition csv_line :: "string list \<Rightarrow> string" where
  "csv_line cells = join '','' (map csv_field cells) @ [CHR 0x0A]"

definition row_cells :: "(f64 \<Rightarrow> string) \<Rightarrow> snapshot \<Rightarrow> nat \<Rightarrow> string list" where
  "row_cells float_repr df i =
     [snap_Symbol df ! i,
      csv_float float_repr (snap_Latest_Price df ! i),
      csv_float float_repr (snap_Opening_Price df ! i),
      csv_float float_repr (snap_High df ! i),
      csv_float float_repr (snap_Low df ! i),
      str_int (snap_Volume df ! i)]"

definition to_csv :: "(f64 \<Rightarrow> string) \<Rightarrow> snapshot \<Rightarrow> string" where
  "to_csv float_repr df =
     concat (map csv_line (columns # map (row_cells float_repr df) [0..<nrows df]))"

text \<open>
  \<open>.encode('utf-8')\<close>. A \<open>string\<close> holds code points below 256: those below 128 are one
  byte, the others two.
\<close>

definition utf8_char :: "char \<Rightarrow> nat list" where
  "utf8_char c = (let n = of_char c :: nat
                  in if n < 128 then [n] else [192 + n div 64, 128 + n mod 64])"

definition encode_utf8 :: "string \<Rightarrow> nat list" where
  "encode_utf8 s = concat (map utf8_char s)"

text \<open>
  The snapshot section: the loop, the table, the CSV download and the PDF download. The
  PDF is the same table laid out by the PDF library; writing it is taken to succeed.
\<close>

definition show_snapshot :: "(f64 \<Rightarrow> string) \<Rightarrow> symbol list \<Rightarrow> session \<Rightarrow> error + session" where
  "show_snapshot float_repr symbols st =
     (case snapshot_loop (st_data st) symbols empty_snapshot of
        Inl e \<Rightarrow> Inl e
      | Inr snapshot \<Rightarrow>
          (case DataFrame snapshot of
             Inl e \<Rightarrow> Inl e
           | Inr df_snapshot \<Rightarrow>
               Inr (st_write (Download_pdf df_snapshot)
                   (st_write (Download_csv (encode_utf8 (to_csv float_repr df_snapshot)))
                   (st_write (Snapshot_table df_snapshot) st)))))"

subsection \<open>The whole run\<close>

text \<open>
  Statements run in order; an exception ends the run and leaves on the page what was
  written before it.
\<close>

fun run_steps :: "(session \<Rightarrow> error + session) list \<Rightarrow> session \<Rightarrow> session \<times> error option" where
  "run_steps [] st = (st, None)"
| "run_steps (step # steps) st =
     (case step st of Inl e \<Rightarrow> (st, Some e) | Inr st' \<Rightarrow> run_steps steps st')"

record outcome =
  fetches :: "(symbol list \<times> date \<times> date) list"
  shown :: "element list"
  raised :: "error option"
  held :: "dataset option"

definition body :: "fill_method \<Rightarrow> (f64 \<Rightarrow> string) \<Rightarrow> symbol list \<Rightarrow> (session \<Rightarrow> error + session) list" where
  "body fm float_repr symbols =
     [show_raw_data symbols,
      plot_line ''Opening Price'' Open symbols,
      plot_line ''Closing Price'' Close symbols,
      plot_volume symbols,
      plot_pct fm symbols,
      plot_candles symbols,
      show_snapshot float_repr symbols]"

definition main :: "provider \<Rightarrow> fill_method \<Rightarrow> (f64 \<Rightarrow> string) \<Rightarrow> symbol list \<Rightarrow> date \<Rightarrow> date \<Rightarrow> outcome" where
  "main download fm float_repr symbols start_date end_date =
     (if symbols \<noteq> [] then
        (case download symbols start_date end_date of
           Inl e \<Rightarrow>
             \<lparr>fetches = [(symbols, start_date, end_date)], shown = [],
              raised = Some e, held = None\<rparr>
         | Inr data \<Rightarrow>
             (case run_steps (body fm float_repr symbols) \<lparr>st_data = data, page = [Success]\<rparr> of
                (st, r) \<Rightarrow>
                  \<lparr>fetches = [(symbols, start_date, end_date)], shown = page st,
                   raised = r, held = Some (st_data st)\<rparr>))
      else \<lparr>fetches = [], shown = [Warning], raised = None, held = None\<rparr>)"

section \<open>Notions used to state the properties\<close>


definition row_ok :: "dataset \<Rightarrow> symbol \<Rightarrow> bool" where
  "row_ok data symb =
     (case data symb of None \<Rightarrow> False | Some df \<Rightarrow> df \<noteq> [] \<and> is_finite (Volume (last df)))"

definition last_row :: "dataset \<Rightarrow> symbol \<Rightarrow> bar" where
  "last_row data symb = last (the (data symb))"

text \<open>The snapshot tables among the elements of a page.\<close>

fun tables :: "element list \<Rightarrow> snapshot list" where
  "tables [] = []"
| "tables (Snapshot_table df # els) = df # tables els"
| "tables (el # els) = tables els"

text \<open>
  What an element of the page is, in terms of the frames that were downloaded: every element
  the script writes after the download is one of these.
\<close>

fun produced :: "dataset \<Rightarrow> fill_method \<Rightarrow> (f64 \<Rightarrow> string) \<Rightarrow> symbol list \<Rightarrow> element \<Rightarrow> bool" where
  "produced data fm float_repr symbols Success = True"
| "produced data fm float_repr symbols Warning = False"
| "produced data fm float_repr symbols (Raw_data rows) =
     (case preview_data data symbols of Inl e \<Rightarrow> False | Inr preview \<Rightarrow> rows = take 20 preview)"
| "produced data fm float_repr symbols (Line_chart title fig) =
     (title = ''Opening Price'' \<and> for_symbols data (scatter Open) symbols = Inr fig
      \<or> title = ''Closing Price'' \<and> for_symbols data (scatter Close) symbols = Inr fig
      \<or> title = ''Daily % Change'' \<and> for_symbols data (pct_scatter fm) symbols = Inr fig)"
| "produced data fm float_repr symbols (Stacked_area_chart title fig) =
     (title = ''Volume Traded'' \<and> for_symbols data (scatter Volume) symbols = Inr fig)"
| "produced data fm float_repr symbols (Candlestick_chart fig) =
     (for_symbols data candlestick symbols = Inr fig)"
| "produced data fm float_repr symbols (Snapshot_table df) =
     (snapshot_loop data symbols empty_snapshot = Inr df)"
| "produced data fm float_repr symbols (Download_csv bytes) =
     (case snapshot_loop data symbols empty_snapshot of
        Inl e \<Rightarrow> False | Inr df \<Rightarrow> bytes = encode_utf8 (to_csv float_repr df))"
| "produced data fm float_repr symbols (Download_pdf df) =
     (snapshot_loop data symbols empty_snapshot = Inr df)"

subsection \<open>Rounding and truncation, as the specification words them\<close>





subsection \<open>Example requests\<close>

text \<open>
  A row with all four prices equal to \<open>c\<close> and volume 1000; three trading days of AAPL
  closing at 100, 110 and 99; a provider that answers every request with the same frames;
  a stand-in for the float printer.
\<close>

definition flat :: "date \<Rightarrow> rat \<Rightarrow> bar" where
  "flat d c =
     \<lparr>Date = d, Open = Num c, High = Num c, Low = Num c, Close = Num c, Volume = Num 1000\<rparr>"

definition aapl_three :: frame where
  "aapl_three = [flat 1 100, flat 2 110, flat 3 99]"

definition aapl_only :: dataset where
  "aapl_only = [''AAPL'' \<mapsto> aapl_three]"


definition shuffled :: dataset where
  "shuffled = [''AAPL'' \<mapsto> [flat 3 100, flat 1 110, flat 3 99]]"



definition fixed_provider :: "dataset \<Rightarrow> provider" where
  "fixed_provider d symbols start_date end_date = Inr d"

definition plain_repr :: "f64 \<Rightarrow> string" where
  "plain_repr v = ''0.0''"


subsection \<open>Reading the export back\<close>

text \<open>
  A reader for CSV text whose fields need no quoting: the text is cut at the newlines (the
  piece after the last one is dropped) and each line at the commas. \<open>plain\<close> fields are
  the ones written without quotes. \<open>decode_utf8\<close> reads UTF-8 back, for the code points a
  \<open>string\<close> holds (the one- and two-byte forms) and rejects everything else.
\<close>

fun split_on :: "char \<Rightarrow> string \<Rightarrow> string list" where
  "split_on c [] = [[]]"
| "split_on c (x # xs) =
     (if x = c then [] # split_on c xs
      else (case split_on c xs of [] \<Rightarrow> [[x]] | w # ws \<Rightarrow> (x # w) # ws))"

definition csv_records :: "string \<Rightarrow> string list list" where
  "csv_records text = map (split_on CHR '','') (butlast (split_on (CHR 0x0A) text))"

fun decode_utf8 :: "nat list \<Rightarrow> string option" where
  "decode_utf8 [] = Some []"
| "decode_utf8 [b] = (if b < 128 then Some [char_of b] else None)"
| "decode_utf8 (b # c # bs) =
     (if b < 128 then map_option (Cons (char_of b)) (decode_utf8 (c # bs))
      else if 194 \<le> b \<and> b \<le> 195 \<and> 128 \<le> c \<and> c < 192
      then map_option (Cons (char_of ((b - 192) * 64 + (c - 128)))) (decode_utf8 bs)
      else None)"

definition plain :: "string \<Rightarrow> bool" where
  "plain s \<longleftrightarrow> \<not> list_ex special s"

definition csv_example :: snapshot where
  "csv_example =
     \<lparr>snap_Symbol = [''AAPL''], snap_Latest_Price = [Num 99], snap_Opening_Price = [NaN],
      snap_High = [Num 99], snap_Low = [Num 99], snap_Volume = [- 1203]\<rparr>"

section \<open>Facts about binary64 rounding\<close>

text \<open>
  The exponent found by \<open>ilog2\<close> is the binary exponent, the overflow test of
  \<open>to_f64\<close> is the comparison with \<open>2^1024\<close>, a normal magnitude is rounded on a grid
  that gives it 53 significant bits, and the rounded magnitude is within half a grid step.
\<close>

lemma bit_length_less: "n < 2 ^ bit_length n"
proof (induction n rule: bit_length.induct)
  case (1 n)
  show ?case
  proof (cases "n = 0")
    case True
    then show ?thesis by (subst bit_length.simps) simp
  next
    case False
    then have "n div 2 < 2 ^ bit_length (n div 2)" using 1 by simp
    then have "n < 2 * 2 ^ bit_length (n div 2)" by linarith
    then show ?thesis using False by (subst bit_length.simps) simp
  qed
qed

lemma bit_length_ge: "0 < n \<Longrightarrow> 2 ^ (bit_length n - 1) \<le> n"
proof (induction n rule: bit_length.induct)
  case (1 n)
  show ?case
  proof (cases "n div 2 = 0")
    case True
    then have "bit_length (n div 2) = 0" by (subst bit_length.simps) simp
    then show ?thesis using 1(2) by (subst bit_length.simps) simp
  next
    case False
    then have ih: "2 ^ (bit_length (n div 2) - 1) \<le> n div 2" using 1 by simp
    have pos: "0 < bit_length (n div 2)" using False by (subst bit_length.simps) simp
    have "bit_length n = Suc (bit_length (n div 2))" using 1(2) by (subst bit_length.simps) simp
    then have "2 ^ (bit_length n - 1) = 2 * 2 ^ (bit_length (n div 2) - 1)"
      using pos by (cases "bit_length (n div 2)") simp_all
    also have "\<dots> \<le> 2 * (n div 2)" using ih by simp
    also have "\<dots> \<le> n" by simp
    finally show ?thesis .
  qed
qed

lemma bit_length_gt_iff: "k < bit_length n \<longleftrightarrow> 2 ^ k \<le> n"
proof
  assume k: "k < bit_length n"
  then have "0 < n" by (cases "n = 0") (simp_all add: bit_length.simps)
  have "(2::nat) ^ k \<le> 2 ^ (bit_length n - 1)" using k by (intro power_increasing) simp_all
  then show "2 ^ k \<le> n" using bit_length_ge [OF \<open>0 < n\<close>] by linarith
next
  assume "2 ^ k \<le> n"
  then have "(2::nat) ^ k < 2 ^ bit_length n" using bit_length_less [of n] by linarith
  then show "k < bit_length n" by simp
qed

lemma pow2_pos: "0 < pow2 e"
  by (simp add: pow2_def)

lemma pow2_of_nat: "pow2 (int n) = 2 ^ n"
  by (simp add: pow2_def)

lemma pow2_neg_nat: "pow2 (- int n) = 1 / 2 ^ n"
proof (cases n)
  case 0
  then show ?thesis by (simp add: pow2_def)
next
  case (Suc k)
  have "nat (int (Suc k)) = Suc k" by (rule nat_int)
  then show ?thesis using Suc by (simp add: pow2_def del: of_nat_Suc)
qed

lemma pow2_Suc: "pow2 (e + 1) = 2 * pow2 e"
proof (cases "0 \<le> e")
  case True
  then have "nat (e + 1) = Suc (nat e)" by simp
  then show ?thesis using True by (simp add: pow2_def)
next
  case False
  then have "nat (- e) = Suc (nat (- (e + 1)))" by simp
  moreover have "e + 1 \<le> 0" using False by simp
  ultimately show ?thesis
    using False by (cases "e + 1 = 0") (simp_all add: pow2_def)
qed

lemma overflow_test: "0 \<le> r \<Longrightarrow> 1024 < bit_length (nat \<lfloor>r\<rfloor>) \<longleftrightarrow> pow2 1024 \<le> r"
proof -
  assume r: "0 \<le> r"
  have "1024 < bit_length (nat \<lfloor>r\<rfloor>) \<longleftrightarrow> (2::nat) ^ 1024 \<le> nat \<lfloor>r\<rfloor>"
    by (rule bit_length_gt_iff)
  also have "\<dots> \<longleftrightarrow> (2::int) ^ 1024 \<le> \<lfloor>r\<rfloor>"
    using r by (simp add: le_nat_iff)
  also have "\<dots> \<longleftrightarrow> rat_of_int (2 ^ 1024) \<le> r"
    by (rule le_floor_iff)
  also have "\<dots> \<longleftrightarrow> pow2 1024 \<le> r"
    by (simp add: pow2_def)
  finally show ?thesis .
qed

lemma ilog2_ge_one:
  assumes "1 \<le> m"
  shows "pow2 (ilog2 m) \<le> m \<and> m < pow2 (ilog2 m + 1)"
proof -
  define n where "n = nat \<lfloor>m\<rfloor>"
  have fl: "1 \<le> \<lfloor>m\<rfloor>" using assms by (simp add: le_floor_iff)
  then have "0 < nat \<lfloor>m\<rfloor>" by simp
  then have n1: "1 \<le> n" unfolding n_def by linarith
  have ni: "int n = \<lfloor>m\<rfloor>" using fl by (simp add: n_def)
  have "rat_of_int \<lfloor>m\<rfloor> \<le> m" "m < rat_of_int \<lfloor>m\<rfloor> + 1" by linarith+
  then have nm: "rat_of_nat n \<le> m" "m < rat_of_nat n + 1"
    unfolding ni [symmetric] by simp_all
  have b: "0 < bit_length n" using n1 by (subst bit_length.simps) simp
  then obtain e where e: "bit_length n = Suc e" by (cases "bit_length n") simp_all
  have il: "ilog2 m = int e" using assms e by (simp add: ilog2_def n_def [symmetric])
  have "2 ^ e \<le> n" using bit_length_ge [of n] n1 e by simp
  then have "rat_of_nat (2 ^ e) \<le> rat_of_nat n" by (simp only: of_nat_le_iff)
  then have "(2::rat) ^ e \<le> rat_of_nat n" by simp
  then have lo: "pow2 (int e) \<le> m" using nm unfolding pow2_of_nat by linarith
  have "n < 2 ^ Suc e" using bit_length_less [of n] e by simp
  then have "n + 1 \<le> 2 ^ Suc e" by simp
  then have "rat_of_nat (n + 1) \<le> rat_of_nat (2 ^ Suc e)" by (simp only: of_nat_le_iff)
  then have "rat_of_nat n + 1 \<le> 2 * 2 ^ e" by simp
  then have "m < 2 * 2 ^ e" using nm by linarith
  then have hi: "m < pow2 (int e + 1)" by (simp add: pow2_Suc pow2_of_nat)
  show ?thesis using il lo hi by simp
qed

lemma ilog2_lt_one:
  assumes "0 < m" "m < 1"
  shows "pow2 (ilog2 m) \<le> m \<and> m < pow2 (ilog2 m + 1)"
proof -
  define r where "r = 1 / m"
  have r1: "1 < r" using assms by (simp add: r_def)
  define n where "n = nat (\<lceil>r\<rceil> - 1)"
  have c2: "2 \<le> \<lceil>r\<rceil>" using r1 by (simp add: le_ceiling_iff)
  have "0 < nat (\<lceil>r\<rceil> - 1)" using c2 by simp
  then have n1: "1 \<le> n" unfolding n_def by linarith
  have nc: "int n = \<lceil>r\<rceil> - 1" using c2 by (simp add: n_def)
  have "rat_of_int \<lceil>r\<rceil> - 1 < r" "r \<le> rat_of_int \<lceil>r\<rceil>" by linarith+
  moreover have "rat_of_int \<lceil>r\<rceil> = rat_of_nat n + 1"
    using arg_cong [OF nc, of rat_of_int] by simp
  ultimately have rn: "rat_of_nat n < r" "r \<le> rat_of_nat n + 1" by simp_all
  have b: "0 < bit_length n" using n1 by (subst bit_length.simps) simp
  then obtain e where e: "bit_length n = Suc e" by (cases "bit_length n") simp_all
  have il: "ilog2 m = - int (Suc e)"
    using assms e by (simp add: ilog2_def r_def [symmetric] n_def [symmetric])
  have "2 ^ e \<le> n" using bit_length_ge [of n] n1 e by simp
  then have "rat_of_nat (2 ^ e) \<le> rat_of_nat n" by (simp only: of_nat_le_iff)
  then have "(2::rat) ^ e \<le> rat_of_nat n" by simp
  then have "2 ^ e < r" using rn by linarith
  then have "m * 2 ^ e < 1" using assms by (simp add: r_def field_simps)
  then have hi: "m < pow2 (- int e)"
    unfolding pow2_neg_nat by (simp add: field_simps)
  have "n < 2 ^ Suc e" using bit_length_less [of n] e by simp
  then have "n + 1 \<le> 2 ^ Suc e" by simp
  then have "rat_of_nat (n + 1) \<le> rat_of_nat (2 ^ Suc e)" by (simp only: of_nat_le_iff)
  then have "rat_of_nat n + 1 \<le> 2 ^ Suc e" by simp
  then have "r \<le> 2 ^ Suc e" using rn by linarith
  then have "1 \<le> m * 2 ^ Suc e" using assms by (simp add: r_def field_simps)
  then have lo: "pow2 (- int (Suc e)) \<le> m"
    unfolding pow2_neg_nat by (simp add: field_simps)
  have "- int (Suc e) + 1 = - int e" by simp
  then show ?thesis using il lo hi by simp
qed

lemma ilog2_bounds: "0 < m \<Longrightarrow> pow2 (ilog2 m) \<le> m \<and> m < pow2 (ilog2 m + 1)"
  using ilog2_ge_one [of m] ilog2_lt_one [of m] by (cases "1 \<le> m") simp_all

lemma pow2_power_int: "pow2 e = power_int 2 e"
  by (simp add: pow2_def power_int_def inverse_eq_divide power_one_over)

lemma pow2_add: "pow2 (a + b) = pow2 a * pow2 b"
  by (simp add: pow2_power_int power_int_add)

lemma pow2_diff: "pow2 (a - b) = pow2 a / pow2 b"
proof -
  have "pow2 a = pow2 (a - b) * pow2 b" using pow2_add [of "a - b" b] by simp
  then show ?thesis using pow2_pos [of b] by simp
qed

lemma pow2_less_imp: "pow2 a < pow2 b \<Longrightarrow> a < b"
proof (rule ccontr)
  assume l: "pow2 a < pow2 b" and "\<not> a < b"
  then have "b \<le> a" by simp
  then obtain n where n: "a = b + int n" by (metis nat_le_iff_add zle_iff_zadd)
  have "(1::rat) \<le> 2 ^ n" by simp
  then have "pow2 b \<le> pow2 b * 2 ^ n" using pow2_pos [of b] by simp
  then have "pow2 b \<le> pow2 a" using n by (simp add: pow2_add pow2_of_nat)
  then show False using l by simp
qed

lemma quantum_pos: "0 < quantum m"
  by (simp add: quantum_def pow2_pos)

lemma round_mag_error: "\<bar>round_mag m - m\<bar> \<le> quantum m / 2"
proof -
  define q where "q = quantum m"
  have q: "0 < q" by (simp add: q_def quantum_pos)
  define f where "f = \<lfloor>m / q\<rfloor>"
  have fl: "rat_of_int f \<le> m / q" "m / q < rat_of_int f + 1"
    unfolding f_def by linarith+
  have "\<bar>rat_of_int (rne (m / q)) - m / q\<bar> \<le> 1 / 2"
    using fl unfolding rne_def Let_def f_def [symmetric] by (auto split: if_splits)
  then have "\<bar>rat_of_int (rne (m / q)) - m / q\<bar> * q \<le> 1 / 2 * q"
    using q by (intro mult_right_mono) simp_all
  moreover have "\<bar>rat_of_int (rne (m / q)) - m / q\<bar> * q = \<bar>rat_of_int (rne (m / q)) * q - m\<bar>"
  proof -
    have "\<bar>rat_of_int (rne (m / q)) - m / q\<bar> * q = \<bar>(rat_of_int (rne (m / q)) - m / q) * q\<bar>"
      using q by (simp add: abs_mult)
    also have "(rat_of_int (rne (m / q)) - m / q) * q = rat_of_int (rne (m / q)) * q - m"
      using q by (simp add: algebra_simps)
    finally show ?thesis .
  qed
  ultimately show ?thesis
    by (simp add: round_mag_def Let_def q_def [symmetric])
qed

lemma normal_significand:
  assumes "pow2 (- 1022) \<le> m"
  shows "quantum m = pow2 (ilog2 m - 52)"
    and "2 ^ 52 \<le> m / quantum m" and "m / quantum m < 2 ^ 53"
proof -
  have m: "0 < m" using assms pow2_pos [of "- 1022"] by linarith
  note b = ilog2_bounds [OF m]
  have "pow2 (- 1022) < pow2 (ilog2 m + 1)" using assms b by linarith
  then have e: "- 1022 \<le> ilog2 m" using pow2_less_imp by fastforce
  then have "max (ilog2 m - 52) (- 1074) = ilog2 m - 52" by linarith
  then show q: "quantum m = pow2 (ilog2 m - 52)"
    by (simp only: quantum_def)
  define s where "s = m / pow2 (ilog2 m)"
  have p: "0 < pow2 (ilog2 m)" by (rule pow2_pos)
  have d: "m / quantum m = s * 2 ^ 52"
    unfolding q pow2_diff s_def using pow2_of_nat [of 52] by simp
  have s1: "1 \<le> s" unfolding s_def using b p by simp
  have s2: "s < 2" unfolding s_def using b p by (simp add: pow2_Suc pos_divide_less_eq)
  have "1 * (2::rat) ^ 52 \<le> s * 2 ^ 52" using s1 by (intro mult_right_mono) simp_all
  then show "2 ^ 52 \<le> m / quantum m" unfolding d by simp
  have "s * (2::rat) ^ 52 < 2 * 2 ^ 52" using s2 by (intro mult_strict_right_mono) simp_all
  then show "m / quantum m < 2 ^ 53" unfolding d by simp
qed

section \<open>Facts about the percent-change series\<close>

lemma length_ffill_from: "length (ffill_from p xs) = length xs"
  by (induction xs arbitrary: p) simp_all

lemma length_fill: "length (fill fm xs) = length xs"
  by (cases fm) (simp_all add: fill_def length_ffill_from)

lemma length_shift: "length (shift xs) = length xs"
  by (cases xs rule: rev_cases) (simp_all add: shift_def)

lemma shift_nth:
  "i < length xs \<Longrightarrow> shift xs ! i = (if i = 0 then NaN else xs ! (i - 1))"
  by (cases i) (auto simp: shift_def nth_butlast)

lemma length_pct_change: "length (pct_change fm xs) = length xs"
  by (simp add: pct_change_def Let_def length_fill length_shift)

lemma f64_div_NaN: "f64_div a NaN = NaN"
  by (simp add: f64_div_def)

lemma f64_sub_NaN: "f64_sub NaN b = NaN"
  by (simp add: f64_sub_def f64_add_def)

lemma f64_mul_NaN: "f64_mul NaN b = NaN"
  by (simp add: f64_mul_def)

lemma pct_change_nth:
  assumes "i < length xs"
  shows "pct_change fm xs ! i =
    (if i = 0 then NaN
     else f64_sub (f64_div (fill fm xs ! i) (fill fm xs ! (i - 1))) (Num 1))"
  using assms
  by (simp add: pct_change_def Let_def length_fill length_shift shift_nth f64_div_NaN f64_sub_NaN)

lemma length_pct: "length (pct fm df) = length df"
  by (simp add: pct_def length_pct_change)

lemma pct_nth:
  assumes "i < length df"
  shows "pct fm df ! i =
    (if i = 0 then NaN
     else f64_mul (f64_sub (f64_div (fill fm (map Close df) ! i) (fill fm (map Close df) ! (i - 1))) (Num 1)) (Num 100))"
  using assms by (simp add: pct_def length_pct_change pct_change_nth f64_mul_NaN)

lemma ffill_from_keeps:
  "i < length xs \<Longrightarrow> xs ! i \<noteq> NaN \<Longrightarrow> ffill_from p xs ! i = xs ! i"
proof (induction xs arbitrary: p i)
  case Nil
  then show ?case by simp
next
  case (Cons x xs)
  then show ?case by (cases i) auto
qed

lemma fill_keeps: "i < length xs \<Longrightarrow> xs ! i \<noteq> NaN \<Longrightarrow> fill fm xs ! i = xs ! i"
  by (cases fm) (simp_all add: fill_def ffill_from_keeps)





lemma for_symbols_Inr:
  "for_symbols data f symbols = Inr out \<Longrightarrow>
     length out = length symbols \<and>
     (\<forall>k < length symbols. \<exists>df. data (symbols ! k) = Some df \<and> out ! k = f (symbols ! k) df)"
proof (induction symbols arbitrary: out)
  case Nil
  then show ?case by simp
next
  case (Cons s rest)
  then show ?case
    by (auto simp: getitem_def nth_Cons split: option.splits sum.splits nat.splits)
qed

lemma for_symbols_total:
  "(\<forall>s \<in> set symbols. data s \<noteq> None) \<Longrightarrow> \<exists>out. for_symbols data f symbols = Inr out"
  by (induction symbols) (auto simp: getitem_def split: option.splits sum.splits)

text \<open>The percent changes of the three-day example, computed in binary64.\<close>

lemma ratio_110_100: "f64_mul (f64_sub (f64_div (Num 110) (Num 100)) (Num 1)) (Num 100)
    = Num (5629499534213125 / 562949953421312)"
  by code_simp

lemma ratio_99_110: "f64_mul (f64_sub (f64_div (Num 99) (Num 110)) (Num 1)) (Num 100)
    = Num (- (5629499534213119 / 562949953421312))"
  by code_simp

lemma fill_no_nan: "NaN \<notin> set xs \<Longrightarrow> fill fm xs = xs"
proof -
  have "NaN \<notin> set xs \<Longrightarrow> ffill_from p xs = xs" for p
    by (induction xs arbitrary: p) auto
  then show "NaN \<notin> set xs \<Longrightarrow> fill fm xs = xs"
    by (cases fm) (simp_all add: fill_def)
qed

lemma pct_aapl_three:
  "pct fm aapl_three = [NaN, Num (5629499534213125 / 562949953421312),
     Num (- (5629499534213119 / 562949953421312))]"
proof -
  have closes: "map Close aapl_three = [Num 100, Num 110, Num 99]"
    by (simp add: aapl_three_def flat_def)
  have filled: "fill fm (map Close aapl_three) = [Num 100, Num 110, Num 99]"
    using fill_no_nan [of "map Close aapl_three" fm] closes by simp
  show ?thesis
    using filled ratio_110_100 ratio_99_110
    by (simp add: pct_def pct_change_def Let_def shift_def f64_div_NaN f64_sub_NaN f64_mul_NaN)
qed

section \<open>Facts about the snapshot loop\<close>

lemma py_int_Inr_iff: "(\<exists>v. py_int x = Inr v) \<longleftrightarrow> is_finite x"
  by (cases x) auto

lemma snapshot_loop_Inr:
  "snapshot_loop data symbols acc = Inr snap \<Longrightarrow>
     (\<forall>s \<in> set symbols. row_ok data s) \<and>
     snap_Symbol snap = snap_Symbol acc @ symbols \<and>
     snap_Latest_Price snap =
       snap_Latest_Price acc @ map (\<lambda>s. round_ndigits (Close (last_row data s)) 2) symbols \<and>
     snap_Opening_Price snap =
       snap_Opening_Price acc @ map (\<lambda>s. round_ndigits (Open (last_row data s)) 2) symbols \<and>
     snap_High snap = snap_High acc @ map (\<lambda>s. round_ndigits (High (last_row data s)) 2) symbols \<and>
     snap_Low snap = snap_Low acc @ map (\<lambda>s. round_ndigits (Low (last_row data s)) 2) symbols \<and>
     map Inr (snap_Volume snap) =
       map Inr (snap_Volume acc) @ map (\<lambda>s. py_int (Volume (last_row data s))) symbols"
proof (induction symbols arbitrary: acc)
  case Nil
  then show ?case by simp
next
  case (Cons s rest)
  from Cons.prems obtain df v where df: "data s = Some df" "df \<noteq> []"
    and v: "py_int (Volume (last df)) = Inr v"
    by (auto simp: getitem_def iloc_last_def split: option.splits sum.splits if_splits)
  let ?acc = "\<lparr>snap_Symbol = snap_Symbol acc @ [s],
       snap_Latest_Price = snap_Latest_Price acc @ [round_ndigits (Close (last df)) 2],
       snap_Opening_Price = snap_Opening_Price acc @ [round_ndigits (Open (last df)) 2],
       snap_High = snap_High acc @ [round_ndigits (High (last df)) 2],
       snap_Low = snap_Low acc @ [round_ndigits (Low (last df)) 2],
       snap_Volume = snap_Volume acc @ [v]\<rparr>"
  have step: "snapshot_loop data rest ?acc = Inr snap"
    using Cons.prems df v by (simp add: getitem_def iloc_last_def)
  have ok: "row_ok data s"
    using df v py_int_Inr_iff [of "Volume (last df)"] by (auto simp: row_ok_def)
  show ?case
    using Cons.IH [OF step] df v ok by (simp add: last_row_def)
qed

lemma snapshot_loop_total:
  "(\<forall>s \<in> set symbols. row_ok data s) \<Longrightarrow> \<exists>snap. snapshot_loop data symbols acc = Inr snap"
proof (induction symbols arbitrary: acc)
  case Nil
  then show ?case by simp
next
  case (Cons s rest)
  then obtain df where df: "data s = Some df" "df \<noteq> []" "is_finite (Volume (last df))"
    by (auto simp: row_ok_def split: option.splits)
  then obtain v where "py_int (Volume (last df)) = Inr v"
    using py_int_Inr_iff by blast
  then show ?case
    using Cons df by (simp add: getitem_def iloc_last_def)
qed


lemma DataFrame_of_loop:
  assumes "snapshot_loop data symbols empty_snapshot = Inr snap"
  shows "DataFrame snap = Inr snap"
proof -
  note r = snapshot_loop_Inr [OF assms]
  from r have "(map Inr (snap_Volume snap) :: (error + int) list) =
      map (\<lambda>s. py_int (Volume (last_row data s))) symbols"
    by (simp add: empty_snapshot_def)
  from arg_cong [OF this, of length] have "length (snap_Volume snap) = length symbols"
    by simp
  then show ?thesis
    using r by (simp add: DataFrame_def empty_snapshot_def)
qed

section \<open>Facts about a whole run\<close>

lemma body_step:
  assumes "step \<in> set (body fm float_repr symbols)" "step st = Inr st'"
  shows "st_data st' = st_data st \<and>
         (\<exists>els. page st' = page st @ els \<and>
                (\<forall>el \<in> set els. produced (st_data st) fm float_repr symbols el))"
proof -
  consider "step = show_raw_data symbols" | "step = plot_line ''Opening Price'' Open symbols"
    | "step = plot_line ''Closing Price'' Close symbols" | "step = plot_volume symbols"
    | "step = plot_pct fm symbols" | "step = plot_candles symbols"
    | "step = show_snapshot float_repr symbols"
    using assms(1) by (auto simp: body_def)
  then show ?thesis
  proof cases
    case 1
    then show ?thesis using assms(2)
      by (auto simp: show_raw_data_def st_write_def split: sum.splits)
  next
    case 2
    then show ?thesis using assms(2)
      by (auto simp: plot_line_def st_write_def split: sum.splits)
  next
    case 3
    then show ?thesis using assms(2)
      by (auto simp: plot_line_def st_write_def split: sum.splits)
  next
    case 4
    then show ?thesis using assms(2)
      by (auto simp: plot_volume_def st_write_def split: sum.splits)
  next
    case 5
    then show ?thesis using assms(2)
      by (auto simp: plot_pct_def st_write_def split: sum.splits)
  next
    case 6
    then show ?thesis using assms(2)
      by (auto simp: plot_candles_def st_write_def split: sum.splits)
  next
    case 7
    then show ?thesis using assms(2) DataFrame_of_loop [of "st_data st" symbols]
      by (auto simp: show_snapshot_def st_write_def split: sum.splits)
  qed
qed

lemma run_steps_invariant:
  assumes "run_steps steps st = (st', r)"
    and "\<And>step a b. step \<in> set steps \<Longrightarrow> step a = Inr b \<Longrightarrow>
            st_data b = st_data a \<and> (\<exists>els. page b = page a @ els \<and> (\<forall>el \<in> set els. P (st_data a) el))"
  shows "st_data st' = st_data st \<and>
         (\<exists>els. page st' = page st @ els \<and> (\<forall>el \<in> set els. P (st_data st) el))"
  using assms
proof (induction steps arbitrary: st)
  case Nil
  then show ?case by simp
next
  case (Cons step steps)
  show ?case
  proof (cases "step st")
    case (Inl e)
    then show ?thesis using Cons.prems(1) by simp
  next
    case (Inr mid)
    then have run: "run_steps steps mid = (st', r)" using Cons.prems(1) by simp
    have one: "st_data mid = st_data st \<and>
        (\<exists>els. page mid = page st @ els \<and> (\<forall>el \<in> set els. P (st_data st) el))"
      using Cons.prems(2) [of step st mid] Inr by simp
    have rest: "st_data st' = st_data mid \<and>
        (\<exists>els. page st' = page mid @ els \<and> (\<forall>el \<in> set els. P (st_data mid) el))"
    proof (rule Cons.IH [OF run])
      fix f a b
      assume "f \<in> set steps" "f a = Inr b"
      then show "st_data b = st_data a \<and>
          (\<exists>els. page b = page a @ els \<and> (\<forall>el \<in> set els. P (st_data a) el))"
        using Cons.prems(2) [of f a b] by simp
    qed
    from one rest show ?thesis by auto
  qed
qed

lemma main_fetched:
  assumes "symbols \<noteq> []" "download symbols start_date end_date = Inr data"
  shows "held (main download fm float_repr symbols start_date end_date) = Some data"
    and "\<forall>el \<in> set (shown (main download fm float_repr symbols start_date end_date)).
           produced data fm float_repr symbols el"
proof -
  obtain st r where run:
    "run_steps (body fm float_repr symbols) \<lparr>st_data = data, page = [Success]\<rparr> = (st, r)"
    by (cases "run_steps (body fm float_repr symbols) \<lparr>st_data = data, page = [Success]\<rparr>")
  have inv: "st_data st = data \<and>
      (\<exists>els. page st = [Success] @ els \<and> (\<forall>el \<in> set els. produced data fm float_repr symbols el))"
    using run_steps_invariant [OF run, of "\<lambda>d. produced d fm float_repr symbols"] body_step
    by simp
  have m: "main download fm float_repr symbols start_date end_date =
      \<lparr>fetches = [(symbols, start_date, end_date)], shown = page st, raised = r,
       held = Some (st_data st)\<rparr>"
    using assms run by (simp add: main_def)
  show "held (main download fm float_repr symbols start_date end_date) = Some data"
    using m inv by simp
  show "\<forall>el \<in> set (shown (main download fm float_repr symbols start_date end_date)).
           produced data fm float_repr symbols el"
    using m inv by auto
qed

lemma st_data_st_write: "st_data (st_write e st) = st_data st"
  by (simp add: st_write_def)

lemma preview_data_total:
  "(\<forall>s \<in> set symbols. data s \<noteq> None) \<Longrightarrow> \<exists>p. preview_data data symbols = Inr p"
  using for_symbols_total [of symbols data "\<lambda>symb df. map (\<lambda>b. (b, symb)) df"]
  by (auto simp: preview_data_def)

lemma row_ok_fetched: "row_ok data s \<Longrightarrow> data s \<noteq> None"
  by (auto simp: row_ok_def split: option.splits)

lemma main_all_ok:
  assumes "symbols \<noteq> []" "download symbols start_date end_date = Inr data"
    and "\<forall>s \<in> set symbols. row_ok data s"
  shows "\<exists>p f1 f2 f3 f4 f5 snap.
     snapshot_loop data symbols empty_snapshot = Inr snap \<and>
     main download fm float_repr symbols start_date end_date =
       \<lparr>fetches = [(symbols, start_date, end_date)],
        shown = [Success, Raw_data p, Line_chart ''Opening Price'' f1,
                 Line_chart ''Closing Price'' f2, Stacked_area_chart ''Volume Traded'' f3,
                 Line_chart ''Daily % Change'' f4, Candlestick_chart f5, Snapshot_table snap,
                 Download_csv (encode_utf8 (to_csv float_repr snap)), Download_pdf snap],
        raised = None, held = Some data\<rparr>"
proof -
  have fetched: "\<forall>s \<in> set symbols. data s \<noteq> None"
    using assms(3) row_ok_fetched by blast
  obtain p where p: "preview_data data symbols = Inr p"
    using preview_data_total [OF fetched] by blast
  obtain f1 where f1: "for_symbols data (scatter Open) symbols = Inr f1"
    using for_symbols_total [OF fetched] by blast
  obtain f2 where f2: "for_symbols data (scatter Close) symbols = Inr f2"
    using for_symbols_total [OF fetched] by blast
  obtain f3 where f3: "for_symbols data (scatter Volume) symbols = Inr f3"
    using for_symbols_total [OF fetched] by blast
  obtain f4 where f4: "for_symbols data (pct_scatter fm) symbols = Inr f4"
    using for_symbols_total [OF fetched] by blast
  obtain f5 where f5: "for_symbols data candlestick symbols = Inr f5"
    using for_symbols_total [OF fetched] by blast
  obtain snap where snap: "snapshot_loop data symbols empty_snapshot = Inr snap"
    using snapshot_loop_total [OF assms(3)] by blast
  have df: "DataFrame snap = Inr snap"
    using DataFrame_of_loop [OF snap] .
  have "main download fm float_repr symbols start_date end_date =
       \<lparr>fetches = [(symbols, start_date, end_date)],
        shown = [Success, Raw_data (take 20 p), Line_chart ''Opening Price'' f1,
                 Line_chart ''Closing Price'' f2, Stacked_area_chart ''Volume Traded'' f3,
                 Line_chart ''Daily % Change'' f4, Candlestick_chart f5, Snapshot_table snap,
                 Download_csv (encode_utf8 (to_csv float_repr snap)), Download_pdf snap],
        raised = None, held = Some data\<rparr>"
    using assms(1,2) p f1 f2 f3 f4 f5 snap df
    by (simp add: main_def body_def show_raw_data_def plot_line_def plot_volume_def
        plot_pct_def plot_candles_def show_snapshot_def st_write_def)
  then show ?thesis using snap by blast
qed



text \<open>The same two changes by the formula of the specification, in binary64.\<close>

lemma spec_formula_110_100:
  "f64_mul (f64_div (f64_sub (Num 110) (Num 100)) (Num 100)) (Num 100) = Num 10"
  by code_simp

lemma spec_formula_99_110:
  "f64_mul (f64_div (f64_sub (Num 99) (Num 110)) (Num 110)) (Num 100) = Num (- 10)"
  by code_simp

section \<open>Facts about rounding and truncation\<close>











lemma tables_set: "df \<in> set (tables els) \<longleftrightarrow> Snapshot_table df \<in> set els"
  by (induction els rule: tables.induct) auto

lemma shown_table:
  assumes "symbols \<noteq> []" "download symbols start_date end_date = Inr data"
    and "df \<in> set (tables (shown (main download fm float_repr symbols start_date end_date)))"
  shows "snapshot_loop data symbols empty_snapshot = Inr df"
proof -
  have "\<forall>el \<in> set (shown (main download fm float_repr symbols start_date end_date)).
      produced data fm float_repr symbols el"
    using assms(1,2) by (rule main_fetched(2))
  then show ?thesis
    using assms(3) by (auto simp: tables_set)
qed

lemma snapshot_loop_nth:
  assumes "snapshot_loop data symbols empty_snapshot = Inr snap" "k < length symbols"
  shows "\<exists>df. data (symbols ! k) = Some df \<and> df \<noteq> []
     \<and> snap_Symbol snap ! k = symbols ! k
     \<and> snap_Latest_Price snap ! k = round_ndigits (Close (last df)) 2
     \<and> snap_Opening_Price snap ! k = round_ndigits (Open (last df)) 2
     \<and> snap_High snap ! k = round_ndigits (High (last df)) 2
     \<and> snap_Low snap ! k = round_ndigits (Low (last df)) 2
     \<and> py_int (Volume (last df)) = Inr (snap_Volume snap ! k)"
proof -
  note r = snapshot_loop_Inr [OF assms(1)]
  have ok: "row_ok data (symbols ! k)" using r assms(2) by simp
  then obtain df where df: "data (symbols ! k) = Some df" "df \<noteq> []"
    by (auto simp: row_ok_def split: option.splits)
  have lr: "last_row data (symbols ! k) = last df" using df by (simp add: last_row_def)
  from r have v: "(map Inr (snap_Volume snap) :: (error + int) list) =
      map (\<lambda>s. py_int (Volume (last_row data s))) symbols"
    by (simp add: empty_snapshot_def)
  from arg_cong [OF v, of length] have len: "length (snap_Volume snap) = length symbols" by simp
  from arg_cong [OF v, of "\<lambda>xs. xs ! k"] have "py_int (Volume (last df)) = Inr (snap_Volume snap ! k)"
    using assms(2) len lr by simp
  then show ?thesis
    using r df lr assms(2) by (simp add: empty_snapshot_def)
qed



lemmas script_defs = main_def body_def show_raw_data_def preview_data_def plot_line_def
  plot_volume_def plot_pct_def plot_candles_def show_snapshot_def st_write_def getitem_def
  iloc_last_def fixed_provider_def DataFrame_def empty_snapshot_def


section \<open>Facts about a run whose snapshot loop raises\<close>



lemma tables_empty_iff: "tables els = [] \<longleftrightarrow> (\<forall>df. Snapshot_table df \<notin> set els)"
  by (induction els rule: tables.induct) auto


section \<open>Facts about the fetch and the example runs\<close>

lemma main_fetches:
  "fetches (main download fm float_repr symbols start_date end_date) =
     (if symbols = [] then [] else [(symbols, start_date, end_date)])"
  by (simp add: main_def split: sum.splits prod.splits)

lemma main_shows_success:
  assumes "symbols \<noteq> []" "download symbols start_date end_date = Inr data"
  shows "Success \<in> set (shown (main download fm float_repr symbols start_date end_date))"
proof -
  obtain st r where run:
    "run_steps (body fm float_repr symbols) \<lparr>st_data = data, page = [Success]\<rparr> = (st, r)"
    by (cases "run_steps (body fm float_repr symbols) \<lparr>st_data = data, page = [Success]\<rparr>")
  have "\<exists>els. page st = page \<lparr>st_data = data, page = [Success]\<rparr> @ els"
    using run_steps_invariant [OF run, of "\<lambda>d. produced d fm float_repr symbols"] body_step
    by blast
  then show ?thesis
    using assms run by (auto simp: main_def)
qed

lemma main_aapl_backwards:
  "fetches (main (fixed_provider aapl_only) Pad plain_repr [''AAPL''] 3 1) = [([''AAPL''], 3, 1)]"
  "raised (main (fixed_provider aapl_only) Pad plain_repr [''AAPL''] 3 1) = None"
  "length (shown (main (fixed_provider aapl_only) Pad plain_repr [''AAPL''] 3 1)) = 10"
  "length (tables (shown (main (fixed_provider aapl_only) Pad plain_repr [''AAPL''] 3 1))) = 1"
  by (simp_all add: script_defs aapl_only_def aapl_three_def flat_def)

lemma main_shuffled:
  "shown (main (fixed_provider shuffled) Pad plain_repr [''AAPL''] 1 3) ! 3 =
     Line_chart ''Closing Price''
       [\<lparr>trace_name = ''AAPL'', trace_x = [3, 1, 3], trace_y = [Num 100, Num 110, Num 99]\<rparr>]"
  "map snap_Latest_Price (tables (shown (main (fixed_provider shuffled) Pad plain_repr [''AAPL''] 1 3)))
     = [[round_ndigits (Num 99) 2]]"
  by (simp_all add: script_defs shuffled_def flat_def scatter_def)

section \<open>Facts about the CSV export\<close>

lemma split_on_append:
  "c \<notin> set a \<Longrightarrow> split_on c (a @ c # rest) = a # split_on c rest"
  by (induction a) auto

lemma split_on_none: "c \<notin> set a \<Longrightarrow> split_on c a = [a]"
  by (induction a) auto

lemma split_on_join:
  "fs \<noteq> [] \<Longrightarrow> \<forall>f \<in> set fs. CHR '','' \<notin> set f \<Longrightarrow> split_on CHR '','' (join '','' fs) = fs"
proof (induction "'',''" fs rule: join.induct)
  case 1
  then show ?case by simp
next
  case (2 f)
  then show ?case by (simp add: split_on_none)
next
  case (3 f g fs)
  then show ?case
    using split_on_append [of "CHR '',''" f "join '','' (g # fs)"] by simp
qed

lemma set_join: "set (join sep fs) \<subseteq> set sep \<union> \<Union> (set ` set fs)"
  by (induction sep fs rule: join.induct) auto

lemma split_lines:
  "\<forall>l \<in> set ls. CHR 0x0A \<notin> set l \<Longrightarrow>
     split_on (CHR 0x0A) (concat (map (\<lambda>l. l @ [CHR 0x0A]) ls)) = ls @ [[]]"
proof (induction ls)
  case Nil
  then show ?case by simp
next
  case (Cons l ls)
  then show ?case
    using split_on_append [of "CHR 0x0A" l "concat (map (\<lambda>l. l @ [CHR 0x0A]) ls)"] by simp
qed

lemma plain_iff: "plain s \<longleftrightarrow> (\<forall>c \<in> set s. \<not> special c)"
  by (simp add: plain_def list_ex_iff)

lemma csv_field_plain: "plain s \<Longrightarrow> csv_field s = s"
  by (simp add: csv_field_def plain_def)

lemma plain_no_comma: "plain s \<Longrightarrow> CHR '','' \<notin> set s"
  by (auto simp: plain_iff special_def)

lemma plain_no_newline: "plain s \<Longrightarrow> CHR 0x0A \<notin> set s"
  by (auto simp: plain_iff special_def)

lemma csv_records_plain:
  assumes "\<forall>r \<in> set recs. r \<noteq> [] \<and> (\<forall>f \<in> set r. plain f)"
  shows "csv_records (concat (map csv_line recs)) = recs"
proof -
  have fields: "map csv_field r = r" if "r \<in> set recs" for r
    using assms that by (simp add: map_idI csv_field_plain)
  then have lines: "map csv_line recs = map (\<lambda>l. l @ [CHR 0x0A]) (map (join '','') recs)"
    by (simp add: csv_line_def)
  have nl: "\<forall>l \<in> set (map (join '','') recs). CHR 0x0A \<notin> set l"
  proof
    fix l assume "l \<in> set (map (join '','') recs)"
    then obtain r where r: "r \<in> set recs" "l = join '','' r" by auto
    have "set l \<subseteq> set '','' \<union> \<Union> (set ` set r)" using r set_join [of "'',''" r] by simp
    moreover have "\<forall>f \<in> set r. CHR 0x0A \<notin> set f"
      using assms r plain_no_newline by blast
    ultimately show "CHR 0x0A \<notin> set l" by auto
  qed
  have "butlast (split_on (CHR 0x0A) (concat (map csv_line recs))) = map (join '','') recs"
    unfolding lines split_lines [OF nl] by simp
  moreover have "map (split_on CHR '','') (map (join '','') recs) = recs"
  proof -
    have "split_on CHR '','' (join '','' r) = r" if "r \<in> set recs" for r
      using assms that plain_no_comma split_on_join [of r] by blast
    then show ?thesis by (simp add: map_idI)
  qed
  ultimately show ?thesis by (simp add: csv_records_def)
qed

lemma str_nat_digits: "\<forall>c \<in> set (str_nat n). 48 \<le> (of_char c :: nat) \<and> (of_char c :: nat) < 58"
proof (induction n rule: str_nat.induct)
  case (1 n)
  show ?case
  proof (cases "n < 10")
    case True
    then show ?thesis by (subst str_nat.simps) simp
  next
    case False
    have "n mod 10 < 10" by simp
    then have "48 \<le> (of_char (char_of (48 + n mod 10)) :: nat)
       \<and> (of_char (char_of (48 + n mod 10)) :: nat) < 58"
      by simp
    then show ?thesis using False 1 by (subst str_nat.simps) auto
  qed
qed

lemma special_codes: "special c \<Longrightarrow> (of_char c :: nat) \<in> {44, 34, 10, 13}"
  by (auto simp: special_def)

lemma plain_str_int: "plain (str_int i)"
proof -
  have "\<not> special c" if "c \<in> set (str_nat n)" for c n
    using str_nat_digits that special_codes [of c] by fastforce
  moreover have "\<not> special CHR ''-''" by (simp add: special_def)
  ultimately show ?thesis by (auto simp: plain_iff str_int_def)
qed

lemma plain_columns: "\<forall>f \<in> set columns. plain f"
  by (simp add: columns_def plain_def special_def)

lemma plain_csv_float: "(\<forall>v. plain (float_repr v)) \<Longrightarrow> plain (csv_float float_repr v)"
  by (simp add: csv_float_def plain_def)

lemma to_csv_records:
  assumes "\<forall>s \<in> set (snap_Symbol df). plain s" "\<forall>v. plain (float_repr v)"
  shows "csv_records (to_csv float_repr df) = columns # map (row_cells float_repr df) [0..<nrows df]"
proof -
  have "\<forall>r \<in> set (columns # map (row_cells float_repr df) [0..<nrows df]).
      r \<noteq> [] \<and> (\<forall>f \<in> set r. plain f)"
    using assms plain_columns plain_str_int plain_csv_float [OF assms(2)]
    by (auto simp: row_cells_def nrows_def columns_def)
  then show ?thesis
    unfolding to_csv_def by (rule csv_records_plain)
qed

lemma utf8_char_decode:
  "decode_utf8 (utf8_char c @ rest) = map_option (Cons c) (decode_utf8 rest)"
proof -
  define n where "n = (of_char c :: nat)"
  have n: "n < 256" "char_of n = c" by (simp_all add: n_def)
  show ?thesis
  proof (cases "n < 128")
    case True
    then show ?thesis using n by (cases rest) (simp_all add: utf8_char_def n_def [symmetric])
  next
    case False
    then have b: "194 \<le> 192 + n div 64" "192 + n div 64 \<le> 195" using n by simp_all
    have c: "128 \<le> 128 + n mod 64" "128 + n mod 64 < 192" by simp_all
    have "(192 + n div 64 - 192) * 64 + (128 + n mod 64 - 128) = n" by simp
    then show ?thesis
      using False b c n by (simp add: utf8_char_def n_def [symmetric] Let_def)
  qed
qed

lemma decode_encode_utf8: "decode_utf8 (encode_utf8 s) = Some s"
  by (induction s) (simp_all add: encode_utf8_def utf8_char_decode)

lemma encode_utf8_bytes: "\<forall>b \<in> set (encode_utf8 s). b < 256"
proof -
  have "\<forall>b \<in> set (utf8_char c). b < 256" for c
  proof -
    have "(of_char c :: nat) < 256" by simp
    then have "(of_char c :: nat) div 64 < 4" by (intro less_mult_imp_div_less) simp
    then show ?thesis by (auto simp: utf8_char_def Let_def)
  qed
  then show ?thesis by (auto simp: encode_utf8_def)
qed

lemma main_shows_csv:
  assumes "symbols \<noteq> []" "download symbols start_date end_date = Inr data"
    and "snap \<in> set (tables (shown (main download fm float_repr symbols start_date end_date)))"
  shows "Download_csv (encode_utf8 (to_csv float_repr snap))
           \<in> set (shown (main download fm float_repr symbols start_date end_date))"
proof -
  have loop: "snapshot_loop data symbols empty_snapshot = Inr snap"
    using shown_table [where download = download, OF assms] .
  then have "\<forall>s \<in> set symbols. row_ok data s"
    using snapshot_loop_Inr by blast
  from main_all_ok [where download = download, OF assms(1,2) this, of fm float_repr] loop
  show ?thesis by auto
qed

lemma plain_options: "\<forall>s \<in> set options. plain s"
  by (simp add: options_def plain_def special_def)

lemma plain_examples: "plain ''AAPL''" "\<forall>v. plain (plain_repr v)"
  by (simp_all add: plain_def special_def plain_repr_def)

text \<open>The export of a one-row table, as text.\<close>

lemma str_int_example: "str_int (- 1203) = ''-1203''"
  by code_simp

lemma csv_example_text:
  "to_csv plain_repr csv_example =
     ''Symbol,Latest Price,Opening Price,High,Low,Volume'' @ [CHR 0x0A]
       @ ''AAPL,0.0,,0.0,0.0,-1203'' @ [CHR 0x0A]"
  using str_int_example
  by (simp add: to_csv_def csv_line_def csv_field_def row_cells_def csv_float_def nrows_def
      columns_def csv_example_def plain_repr_def special_def)

section \<open>The percent-change series\<close>

text \<open>
  C2 (as the code has it). The percent-change series plotted for a symbol has one entry per
  row of the symbol's series, not one fewer: entry \<open>i\<close> is paired with the date of row
  \<open>i\<close>, and the first date does have an entry, the placeholder NaN that
  \<open>pct_change\<close> puts there.
\<close>

theorem pct_trace_aligned:
  "length (trace_y (pct_scatter fm symb df)) = length df
   \<and> length (trace_x (pct_scatter fm symb df)) = length df
   \<and> (\<forall>i < length df. trace_x (pct_scatter fm symb df) ! i = Date (df ! i))
   \<and> (df \<noteq> [] \<longrightarrow> trace_y (pct_scatter fm symb df) ! 0 = NaN)"
proof -
  have "df \<noteq> [] \<Longrightarrow> pct fm df ! 0 = NaN"
    using pct_nth [of 0 df fm] by simp
  then show ?thesis
    by (simp add: pct_scatter_def length_pct)
qed

theorem pct_trace_aligned_witness:
  "aapl_three \<noteq> [] \<and> (1::nat) < length aapl_three
   \<and> length (trace_y (pct_scatter Pad ''AAPL'' aapl_three)) = length aapl_three
   \<and> length (trace_x (pct_scatter Pad ''AAPL'' aapl_three)) = length aapl_three
   \<and> trace_x (pct_scatter Pad ''AAPL'' aapl_three) ! 1 = Date (aapl_three ! 1)
   \<and> trace_y (pct_scatter Pad ''AAPL'' aapl_three) ! 0 = NaN"
proof -
  have ne: "aapl_three \<noteq> []" and one: "(1::nat) < length aapl_three"
    by (simp_all add: aapl_three_def)
  show ?thesis
    using pct_trace_aligned [of Pad "''AAPL''" aapl_three] ne one by blast
qed

theorem pct_length_counterexample:
  "length (pct Pad aapl_three) = 3
   \<and> length (pct Pad aapl_three) \<noteq> max 0 (length aapl_three - 1)
   \<and> length (pct NoFill aapl_three) \<noteq> max 0 (length aapl_three - 1)
   \<and> trace_x (pct_scatter Pad ''AAPL'' aapl_three) ! 0 = Date (aapl_three ! 0)
   \<and> trace_y (pct_scatter Pad ''AAPL'' aapl_three) ! 0 = NaN
   \<and> trace_y (pct_scatter NoFill ''AAPL'' aapl_three) ! 0 = NaN"
proof -
  have "pct fm aapl_three ! 0 = NaN" for fm
    using pct_nth [of 0 aapl_three fm] by (simp add: aapl_three_def)
  then show ?thesis
    by (simp add: length_pct pct_scatter_def) (simp add: aapl_three_def)
qed

text \<open>
  C5 (as the code has it). For every row \<open>i \<ge> 1\<close> of a symbol's series the plotted value
  is \<open>(close[i] / close[i-1] - 1) * 100\<close>, each operation rounded to binary64 and the
  closes taken after the fill of \<open>pct_change\<close> (the closes themselves where neither is
  NaN), paired with \<open>date[i]\<close>; position 0 holds NaN. For closes 100, 110, 99 the series is
  NaN, 10.000000000000009, -9.999999999999998: in binary64 the quotient form is not the
  difference form of the specification, which gives 10 and -10.
\<close>

theorem pct_formula:
  assumes "0 < i" "i < length df"
  shows "pct fm df ! i =
           f64_mul (f64_sub (f64_div (fill fm (map Close df) ! i)
                                     (fill fm (map Close df) ! (i - 1))) (Num 1)) (Num 100)
         \<and> (Close (df ! i) \<noteq> NaN \<and> Close (df ! (i - 1)) \<noteq> NaN \<longrightarrow>
              pct fm df ! i =
                f64_mul (f64_sub (f64_div (Close (df ! i)) (Close (df ! (i - 1)))) (Num 1))
                        (Num 100))
         \<and> trace_x (pct_scatter fm symb df) ! i = Date (df ! i)
         \<and> trace_y (pct_scatter fm symb df) ! i = pct fm df ! i
         \<and> pct fm df ! 0 = NaN"
proof -
  have general: "pct fm df ! i =
      f64_mul (f64_sub (f64_div (fill fm (map Close df) ! i)
                                (fill fm (map Close df) ! (i - 1))) (Num 1)) (Num 100)"
    using assms pct_nth [of i df fm] by simp
  have kept: "fill fm (map Close df) ! j = Close (df ! j)"
    if "j < length df" "Close (df ! j) \<noteq> NaN" for j
    using that fill_keeps [of j "map Close df" fm] by simp
  have first: "pct fm df ! 0 = NaN"
  proof -
    have "0 < length df" using assms by (cases df) auto
    then show ?thesis using pct_nth [of 0 df fm] by simp
  qed
  show ?thesis
    using assms general kept [of i] kept [of "i - 1"] first
    by (simp add: pct_scatter_def)
qed

theorem pct_formula_witness:
  "(0::nat) < 1 \<and> (1::nat) < length aapl_three
   \<and> Close (aapl_three ! 1) \<noteq> NaN \<and> Close (aapl_three ! (1 - 1)) \<noteq> NaN
   \<and> pct Pad aapl_three ! 1 =
        f64_mul (f64_sub (f64_div (Close (aapl_three ! 1)) (Close (aapl_three ! (1 - 1))))
                         (Num 1)) (Num 100)
   \<and> trace_x (pct_scatter Pad ''AAPL'' aapl_three) ! 1 = Date (aapl_three ! 1)
   \<and> pct Pad aapl_three ! 0 = NaN"
proof -
  have h: "(0::nat) < 1" "(1::nat) < length aapl_three"
    "Close (aapl_three ! 1) \<noteq> NaN" "Close (aapl_three ! (1 - 1)) \<noteq> NaN"
    by (simp_all add: aapl_three_def flat_def)
  show ?thesis
    using pct_formula [OF h(1) h(2), of Pad "''AAPL''"] h by blast
qed

theorem pct_exact_counterexample:
  "pct Pad aapl_three =
     [NaN, Num (5629499534213125 / 562949953421312), Num (- (5629499534213119 / 562949953421312))]
   \<and> pct NoFill aapl_three =
     [NaN, Num (5629499534213125 / 562949953421312), Num (- (5629499534213119 / 562949953421312))]
   \<and> pct Pad aapl_three \<noteq> [Num 10, Num (- 10)]
   \<and> tl (pct Pad aapl_three) \<noteq> [Num 10, Num (- 10)]
   \<and> pct NoFill aapl_three \<noteq> [Num 10, Num (- 10)]
   \<and> tl (pct NoFill aapl_three) \<noteq> [Num 10, Num (- 10)]
   \<and> f64_mul (f64_div (f64_sub (Num 110) (Num 100)) (Num 100)) (Num 100) = Num 10
   \<and> f64_mul (f64_div (f64_sub (Num 99) (Num 110)) (Num 110)) (Num 100) = Num (- 10)"
  by (simp add: pct_aapl_three spec_formula_110_100 spec_formula_99_110)



section \<open>The snapshot table\<close>









section \<open>The request as a whole\<close>

text \<open>
  C3 (as the code has it). Only an empty symbol selection stops a request before the fetch:
  then the provider is not called and nothing but the warning is shown. A request whose
  start date is after its end date is not refused: with a non-empty selection the provider
  is called once, with those dates, and what it returns is processed (or its exception
  ends the run).
\<close>

theorem fetch_regardless_of_dates:
  "fetches (main download fm float_repr symbols start_date end_date) =
     (if symbols = [] then [] else [(symbols, start_date, end_date)])
   \<and> (symbols = [] \<longrightarrow>
        shown (main download fm float_repr symbols start_date end_date) = [Warning]
        \<and> raised (main download fm float_repr symbols start_date end_date) = None)
   \<and> (symbols \<noteq> [] \<and> end_date < start_date \<longrightarrow>
        fetches (main download fm float_repr symbols start_date end_date)
          = [(symbols, start_date, end_date)]
        \<and> (\<forall>data. download symbols start_date end_date = Inr data \<longrightarrow>
              Success \<in> set (shown (main download fm float_repr symbols start_date end_date)))
        \<and> (\<forall>e. download symbols start_date end_date = Inl e \<longrightarrow>
              raised (main download fm float_repr symbols start_date end_date) = Some e))"
proof (intro conjI impI allI)
  show "fetches (main download fm float_repr symbols start_date end_date) =
     (if symbols = [] then [] else [(symbols, start_date, end_date)])"
    by (rule main_fetches)
next
  assume "symbols = []"
  then show "shown (main download fm float_repr symbols start_date end_date) = [Warning]"
    and "raised (main download fm float_repr symbols start_date end_date) = None"
    by (simp_all add: main_def)
next
  assume "symbols \<noteq> [] \<and> end_date < start_date"
  then show "fetches (main download fm float_repr symbols start_date end_date)
      = [(symbols, start_date, end_date)]"
    by (simp add: main_fetches)
next
  fix data
  assume "symbols \<noteq> [] \<and> end_date < start_date"
    and "download symbols start_date end_date = Inr data"
  then show "Success \<in> set (shown (main download fm float_repr symbols start_date end_date))"
    using main_shows_success [where download = download] by blast
next
  fix e
  assume "symbols \<noteq> [] \<and> end_date < start_date"
    and "download symbols start_date end_date = Inl e"
  then show "raised (main download fm float_repr symbols start_date end_date) = Some e"
    by (simp add: main_def)
qed

theorem invalid_dates_counterexample:
  "(1::int) < 3
   \<and> fetches (main (fixed_provider aapl_only) Pad plain_repr [''AAPL''] 3 1) = [([''AAPL''], 3, 1)]
   \<and> length (fetches (main (fixed_provider aapl_only) Pad plain_repr [''AAPL''] 3 1)) \<noteq> 0
   \<and> raised (main (fixed_provider aapl_only) Pad plain_repr [''AAPL''] 3 1) = None
   \<and> length (shown (main (fixed_provider aapl_only) Pad plain_repr [''AAPL''] 3 1)) = 10
   \<and> length (tables (shown (main (fixed_provider aapl_only) Pad plain_repr [''AAPL''] 3 1))) = 1"
  by (simp add: main_aapl_backwards)

theorem fetch_regardless_of_dates_witness:
  "shown (main (fixed_provider aapl_only) Pad plain_repr [] 3 1) = [Warning]
   \<and> raised (main (fixed_provider aapl_only) Pad plain_repr [] 3 1) = None
   \<and> fetches (main (fixed_provider aapl_only) Pad plain_repr [] 3 1) = []
   \<and> [''AAPL''] \<noteq> [] \<and> (1::int) < 3
   \<and> fixed_provider aapl_only [''AAPL''] 3 1 = Inr aapl_only
   \<and> fetches (main (fixed_provider aapl_only) Pad plain_repr [''AAPL''] 3 1) = [([''AAPL''], 3, 1)]
   \<and> Success \<in> set (shown (main (fixed_provider aapl_only) Pad plain_repr [''AAPL''] 3 1))"
proof -
  note t0 = fetch_regardless_of_dates [of "fixed_provider aapl_only" Pad plain_repr "[]" 3 1]
  note t1 = fetch_regardless_of_dates [of "fixed_provider aapl_only" Pad plain_repr "[''AAPL'']" 3 1]
  have b2: "fixed_provider aapl_only [''AAPL''] 3 1 = Inr aapl_only"
    by (simp add: fixed_provider_def)
  have "shown (main (fixed_provider aapl_only) Pad plain_repr [] 3 1) = [Warning]
   \<and> raised (main (fixed_provider aapl_only) Pad plain_repr [] 3 1) = None
   \<and> fetches (main (fixed_provider aapl_only) Pad plain_repr [] 3 1) = []"
    using t0 by simp
  moreover have "fetches (main (fixed_provider aapl_only) Pad plain_repr [''AAPL''] 3 1)
      = [([''AAPL''], 3, 1)]
    \<and> Success \<in> set (shown (main (fixed_provider aapl_only) Pad plain_repr [''AAPL''] 3 1))"
    using t1 b2 by simp
  ultimately show ?thesis using b2 by simp
qed

text \<open>
  C6 (as the code has it). The series handed to each consumer is the provider's series as
  delivered: in every chart shown the dates of a symbol's trace are the dates of its frame
  in the provider's order, duplicates included, and the snapshot reads the row delivered
  last. Nothing is re-sorted or de-duplicated, so the dates are ascending and unique only
  if the provider's were.
\<close>

theorem provider_order_kept:
  assumes "symbols \<noteq> []" "download symbols start_date end_date = Inr data"
    and "k < length symbols"
  shows "(\<forall>title fig.
            Line_chart title fig \<in> set (shown (main download fm float_repr symbols start_date end_date))
            \<or> Stacked_area_chart title fig
                 \<in> set (shown (main download fm float_repr symbols start_date end_date)) \<longrightarrow>
            length fig = length symbols
            \<and> (\<exists>df. data (symbols ! k) = Some df \<and> trace_x (fig ! k) = map Date df))
       \<and> (\<forall>fig.
            Candlestick_chart fig \<in> set (shown (main download fm float_repr symbols start_date end_date)) \<longrightarrow>
            length fig = length symbols
            \<and> (\<exists>df. data (symbols ! k) = Some df \<and> candle_x (fig ! k) = map Date df))
       \<and> (\<forall>snap \<in> set (tables (shown (main download fm float_repr symbols start_date end_date))).
            \<exists>df. data (symbols ! k) = Some df \<and> df \<noteq> []
              \<and> snap_Latest_Price snap ! k = round_ndigits (Close (last df)) 2)"
proof -
  have prod: "\<forall>el \<in> set (shown (main download fm float_repr symbols start_date end_date)).
      produced data fm float_repr symbols el"
    using assms(1,2) by (rule main_fetched(2))
  have tr: "length fig = length symbols
      \<and> (\<exists>df. data (symbols ! k) = Some df \<and> trace_x (fig ! k) = map Date df)"
    if "for_symbols data (scatter col) symbols = Inr fig" for col fig
    using for_symbols_Inr [OF that] assms(3) by (auto simp: scatter_def)
  have pc: "length fig = length symbols
      \<and> (\<exists>df. data (symbols ! k) = Some df \<and> trace_x (fig ! k) = map Date df)"
    if "for_symbols data (pct_scatter fm) symbols = Inr fig" for fig
    using for_symbols_Inr [OF that] assms(3) by (auto simp: pct_scatter_def)
  have cd: "length fig = length symbols
      \<and> (\<exists>df. data (symbols ! k) = Some df \<and> candle_x (fig ! k) = map Date df)"
    if "for_symbols data candlestick symbols = Inr fig" for fig
    using for_symbols_Inr [OF that] assms(3) by (auto simp: candlestick_def)
  show ?thesis
  proof (intro conjI allI impI ballI)
    fix title fig
    assume a: "Line_chart title fig \<in> set (shown (main download fm float_repr symbols start_date end_date))
       \<or> Stacked_area_chart title fig
            \<in> set (shown (main download fm float_repr symbols start_date end_date))"
    then have "produced data fm float_repr symbols (Line_chart title fig)
       \<or> produced data fm float_repr symbols (Stacked_area_chart title fig)"
      using prod by blast
    then have "length fig = length symbols
      \<and> (\<exists>df. data (symbols ! k) = Some df \<and> trace_x (fig ! k) = map Date df)"
      using tr pc by auto
    then show "length fig = length symbols"
      and "\<exists>df. data (symbols ! k) = Some df \<and> trace_x (fig ! k) = map Date df"
      by simp_all
  next
    fix fig
    assume "Candlestick_chart fig \<in> set (shown (main download fm float_repr symbols start_date end_date))"
    then have "produced data fm float_repr symbols (Candlestick_chart fig)"
      using prod by blast
    then have "length fig = length symbols
      \<and> (\<exists>df. data (symbols ! k) = Some df \<and> candle_x (fig ! k) = map Date df)"
      using cd by simp
    then show "length fig = length symbols"
      and "\<exists>df. data (symbols ! k) = Some df \<and> candle_x (fig ! k) = map Date df"
      by simp_all
  next
    fix snap
    assume "snap \<in> set (tables (shown (main download fm float_repr symbols start_date end_date)))"
    then have "snapshot_loop data symbols empty_snapshot = Inr snap"
      using shown_table [where download = download, OF assms(1,2)] by simp
    from snapshot_loop_nth [OF this assms(3)]
    show "\<exists>df. data (symbols ! k) = Some df \<and> df \<noteq> []
              \<and> snap_Latest_Price snap ! k = round_ndigits (Close (last df)) 2"
      by blast
  qed
qed

theorem unsorted_dates_counterexample:
  "shown (main (fixed_provider shuffled) Pad plain_repr [''AAPL''] 1 3) ! 3 =
     Line_chart ''Closing Price''
       [\<lparr>trace_name = ''AAPL'', trace_x = [3, 1, 3], trace_y = [Num 100, Num 110, Num 99]\<rparr>]
   \<and> \<not> sorted_wrt (<) [3, 1, 3 :: date] \<and> \<not> distinct [3, 1, 3 :: date]
   \<and> map snap_Latest_Price (tables (shown (main (fixed_provider shuffled) Pad plain_repr [''AAPL''] 1 3)))
     = [[round_ndigits (Num 99) 2]]"
  by (simp add: main_shuffled)

theorem provider_order_kept_witness:
  "[''AAPL''] \<noteq> [] \<and> fixed_provider shuffled [''AAPL''] 1 3 = Inr shuffled
   \<and> (0::nat) < length [''AAPL'']
   \<and> Line_chart ''Closing Price''
       [\<lparr>trace_name = ''AAPL'', trace_x = [3, 1, 3], trace_y = [Num 100, Num 110, Num 99]\<rparr>]
      \<in> set (shown (main (fixed_provider shuffled) Pad plain_repr [''AAPL''] 1 3))
   \<and> (\<exists>df. shuffled ([''AAPL''] ! 0) = Some df \<and> [3, 1, 3] = map Date df)"
proof -
  let ?fig = "[\<lparr>trace_name = ''AAPL'', trace_x = [3, 1, 3], trace_y = [Num 100, Num 110, Num 99]\<rparr>]"
  have h1: "[''AAPL''] \<noteq> []" by simp
  have h2: "fixed_provider shuffled [''AAPL''] 1 3 = Inr shuffled" by (simp add: fixed_provider_def)
  have h3: "(0::nat) < length [''AAPL'']" by simp
  have h4: "Line_chart ''Closing Price'' ?fig
      \<in> set (shown (main (fixed_provider shuffled) Pad plain_repr [''AAPL''] 1 3))"
    by (simp add: script_defs shuffled_def flat_def scatter_def)
  from provider_order_kept [where download = "fixed_provider shuffled", OF h1 h2 h3, of Pad plain_repr]
  have "\<exists>df. shuffled ([''AAPL''] ! 0) = Some df \<and> trace_x (?fig ! 0) = map Date df"
    using h4 by blast
  then show ?thesis using h1 h2 h3 h4 by simp
qed

text \<open>
  C10. Deriving the percent changes and building the snapshot leave the downloaded frames
  as they were, as does every other step of the run: the frames held at the end of a
  request are the ones the provider returned, and every element shown (preview, charts,
  snapshot, exports) is computed from that one mapping.
\<close>

theorem raw_data_unchanged:
  "(\<forall>st st'. plot_pct fm symbols st = Inr st' \<longrightarrow> st_data st' = st_data st)
   \<and> (\<forall>st st'. show_snapshot float_repr symbols st = Inr st' \<longrightarrow> st_data st' = st_data st)
   \<and> (\<forall>step \<in> set (body fm float_repr symbols).
        \<forall>st st'. step st = Inr st' \<longrightarrow> st_data st' = st_data st)
   \<and> (symbols \<noteq> [] \<and> download symbols start_date end_date = Inr data \<longrightarrow>
        held (main download fm float_repr symbols start_date end_date) = Some data
        \<and> (\<forall>el \<in> set (shown (main download fm float_repr symbols start_date end_date)).
             produced data fm float_repr symbols el))"
proof -
  have frame: "st_data st' = st_data st"
    if "step \<in> set (body fm float_repr symbols)" "step st = Inr st'" for step st st'
    using body_step [OF that] by simp
  have "plot_pct fm symbols \<in> set (body fm float_repr symbols)"
    and "show_snapshot float_repr symbols \<in> set (body fm float_repr symbols)"
    by (simp_all add: body_def)
  then have a: "\<forall>st st'. plot_pct fm symbols st = Inr st' \<longrightarrow> st_data st' = st_data st"
    and b: "\<forall>st st'. show_snapshot float_repr symbols st = Inr st' \<longrightarrow> st_data st' = st_data st"
    using frame by blast+
  have c: "\<forall>step \<in> set (body fm float_repr symbols).
        \<forall>st st'. step st = Inr st' \<longrightarrow> st_data st' = st_data st"
    using frame by blast
  have d: "symbols \<noteq> [] \<and> download symbols start_date end_date = Inr data \<longrightarrow>
        held (main download fm float_repr symbols start_date end_date) = Some data
        \<and> (\<forall>el \<in> set (shown (main download fm float_repr symbols start_date end_date)).
             produced data fm float_repr symbols el)"
    using main_fetched [where download = download and symbols = symbols and data = data]
    by blast
  from a b c d show ?thesis by blast
qed

theorem raw_data_unchanged_witness:
  "[''AAPL''] \<noteq> [] \<and> fixed_provider aapl_only [''AAPL''] 1 3 = Inr aapl_only
   \<and> held (main (fixed_provider aapl_only) Pad plain_repr [''AAPL''] 1 3) = Some aapl_only
   \<and> (\<exists>st'. plot_pct Pad [''AAPL''] \<lparr>st_data = aapl_only, page = []\<rparr> = Inr st'
         \<and> st_data st' = aapl_only)
   \<and> (\<exists>st'. show_snapshot plain_repr [''AAPL''] \<lparr>st_data = aapl_only, page = []\<rparr> = Inr st'
         \<and> st_data st' = aapl_only)"
proof -
  have h1: "[''AAPL''] \<noteq> []" by simp
  have h2: "fixed_provider aapl_only [''AAPL''] 1 3 = Inr aapl_only"
    by (simp add: fixed_provider_def)
  note t = raw_data_unchanged [of Pad "[''AAPL'']" plain_repr "fixed_provider aapl_only" 1 3 aapl_only]
  have p: "\<exists>st'. plot_pct Pad [''AAPL''] \<lparr>st_data = aapl_only, page = []\<rparr> = Inr st'"
    by (simp add: plot_pct_def getitem_def aapl_only_def)
  have s: "\<exists>st'. show_snapshot plain_repr [''AAPL''] \<lparr>st_data = aapl_only, page = []\<rparr> = Inr st'"
    by (simp add: show_snapshot_def getitem_def iloc_last_def DataFrame_def empty_snapshot_def
        aapl_only_def aapl_three_def flat_def)
  have "held (main (fixed_provider aapl_only) Pad plain_repr [''AAPL''] 1 3) = Some aapl_only"
    using t h1 h2 by blast
  moreover have "\<exists>st'. plot_pct Pad [''AAPL''] \<lparr>st_data = aapl_only, page = []\<rparr> = Inr st'
         \<and> st_data st' = aapl_only"
    using t p by fastforce
  moreover have "\<exists>st'. show_snapshot plain_repr [''AAPL''] \<lparr>st_data = aapl_only, page = []\<rparr> = Inr st'
         \<and> st_data st' = aapl_only"
    using t s by fastforce
  ultimately show ?thesis using h1 h2 by blast
qed

section \<open>The CSV export\<close>

text \<open>
  C9. For every snapshot table shown, the CSV download is the UTF-8 encoding of a text that
  holds a header line and then one line per row of the table, each line with the six columns
  in the fixed order Symbol, Latest Price, Opening Price, High, Low, Volume. The lines are
  read back here for fields that need no quoting, which is the case for every ticker the
  page offers and for printed numbers.
\<close>

theorem csv_export:
  assumes "symbols \<noteq> []" "download symbols start_date end_date = Inr data"
    and "snap \<in> set (tables (shown (main download fm float_repr symbols start_date end_date)))"
    and "\<forall>s \<in> set symbols. plain s" "\<forall>v. plain (float_repr v)"
  shows "Download_csv (encode_utf8 (to_csv float_repr snap))
           \<in> set (shown (main download fm float_repr symbols start_date end_date))
       \<and> (\<forall>bytes. Download_csv bytes
              \<in> set (shown (main download fm float_repr symbols start_date end_date)) \<longrightarrow>
            bytes = encode_utf8 (to_csv float_repr snap))
       \<and> decode_utf8 (encode_utf8 (to_csv float_repr snap)) = Some (to_csv float_repr snap)
       \<and> length (csv_records (to_csv float_repr snap)) = 1 + nrows snap
       \<and> hd (csv_records (to_csv float_repr snap)) =
            [''Symbol'', ''Latest Price'', ''Opening Price'', ''High'', ''Low'', ''Volume'']
       \<and> (\<forall>i < nrows snap.
            csv_records (to_csv float_repr snap) ! (i + 1) =
              [snap_Symbol snap ! i,
               csv_float float_repr (snap_Latest_Price snap ! i),
               csv_float float_repr (snap_Opening_Price snap ! i),
               csv_float float_repr (snap_High snap ! i),
               csv_float float_repr (snap_Low snap ! i),
               str_int (snap_Volume snap ! i)])"
proof -
  have loop: "snapshot_loop data symbols empty_snapshot = Inr snap"
    using shown_table [where download = download, OF assms(1,2,3)] .
  have sym: "snap_Symbol snap = symbols"
    using snapshot_loop_Inr [OF loop] by (simp add: empty_snapshot_def)
  have recs: "csv_records (to_csv float_repr snap) =
      columns # map (row_cells float_repr snap) [0..<nrows snap]"
    using to_csv_records [of snap float_repr] assms(4,5) sym by simp
  have prod: "\<forall>el \<in> set (shown (main download fm float_repr symbols start_date end_date)).
      produced data fm float_repr symbols el"
    using assms(1,2) by (rule main_fetched(2))
  have only: "\<forall>bytes. Download_csv bytes
        \<in> set (shown (main download fm float_repr symbols start_date end_date)) \<longrightarrow>
      bytes = encode_utf8 (to_csv float_repr snap)"
  proof (intro allI impI)
    fix bytes
    assume "Download_csv bytes
        \<in> set (shown (main download fm float_repr symbols start_date end_date))"
    then have "produced data fm float_repr symbols (Download_csv bytes)"
      using prod by blast
    then show "bytes = encode_utf8 (to_csv float_repr snap)"
      using loop by simp
  qed
  have shows_csv: "Download_csv (encode_utf8 (to_csv float_repr snap))
      \<in> set (shown (main download fm float_repr symbols start_date end_date))"
    using main_shows_csv [where download = download, OF assms(1,2,3)] .
  have len: "length (csv_records (to_csv float_repr snap)) = 1 + nrows snap"
    unfolding recs by simp
  have header: "hd (csv_records (to_csv float_repr snap)) =
      [''Symbol'', ''Latest Price'', ''Opening Price'', ''High'', ''Low'', ''Volume'']"
    unfolding recs by (simp add: columns_def)
  have rows: "\<forall>i < nrows snap.
      csv_records (to_csv float_repr snap) ! (i + 1) =
        [snap_Symbol snap ! i,
         csv_float float_repr (snap_Latest_Price snap ! i),
         csv_float float_repr (snap_Opening_Price snap ! i),
         csv_float float_repr (snap_High snap ! i),
         csv_float float_repr (snap_Low snap ! i),
         str_int (snap_Volume snap ! i)]"
    unfolding recs by (simp add: row_cells_def)
  from shows_csv only decode_encode_utf8 [of "to_csv float_repr snap"] len header rows
  show ?thesis by (intro conjI)
qed

theorem csv_export_witness:
  "[''AAPL''] \<noteq> [] \<and> fixed_provider aapl_only [''AAPL''] 1 3 = Inr aapl_only
   \<and> plain ''AAPL'' \<and> (\<forall>v. plain (plain_repr v))
   \<and> (\<exists>snap. snap \<in> set (tables (shown (main (fixed_provider aapl_only) Pad plain_repr [''AAPL''] 1 3)))
        \<and> Download_csv (encode_utf8 (to_csv plain_repr snap))
             \<in> set (shown (main (fixed_provider aapl_only) Pad plain_repr [''AAPL''] 1 3))
        \<and> decode_utf8 (encode_utf8 (to_csv plain_repr snap)) = Some (to_csv plain_repr snap)
        \<and> length (csv_records (to_csv plain_repr snap)) = 1 + nrows snap
        \<and> hd (csv_records (to_csv plain_repr snap)) =
             [''Symbol'', ''Latest Price'', ''Opening Price'', ''High'', ''Low'', ''Volume''])"
proof -
  have b1: "[''AAPL''] \<noteq> []" by simp
  have b2: "fixed_provider aapl_only [''AAPL''] 1 3 = Inr aapl_only"
    by (simp add: fixed_provider_def)
  have b3: "tables (shown (main (fixed_provider aapl_only) Pad plain_repr [''AAPL''] 1 3)) \<noteq> []"
    by (simp add: script_defs aapl_only_def aapl_three_def flat_def)
  then obtain snap where b4:
    "snap \<in> set (tables (shown (main (fixed_provider aapl_only) Pad plain_repr [''AAPL''] 1 3)))"
    by (cases "tables (shown (main (fixed_provider aapl_only) Pad plain_repr [''AAPL''] 1 3))") auto
  have b5: "\<forall>s \<in> set [''AAPL'']. plain s" using plain_examples(1) by simp
  note t = csv_export [where download = "fixed_provider aapl_only", OF b1 b2 b4 b5 plain_examples(2)]
  show ?thesis
    using b1 b2 b4 plain_examples t by blast
qed

end
